theory Spec2Isabelle
  imports Main "HOL-Library.Sublist"
begin

section \<open>JavaScript values and strings\<close>

text \<open>
  The scraper passes plain JavaScript objects between its handlers. A value is one of the
  variants below; numbers are the integers the scraper meets (ids, counts, offsets), with
  \<open>JNaN\<close> for the result of a failed \<open>parseInt\<close>. An object is a finite map from
  property names to values: a missing property reads as \<open>undefined\<close>. Strings are lists
  of code units.
\<close>

datatype jsval =
    JUndefined
  | JNull
  | JBool bool
  | JNaN
  | JNum int
  | JStr string
  | JArr "jsval list"
  | JObj "(string \<times> jsval) list"

type_synonym jsobj = "string \<Rightarrow> jsval option"

definition field :: "jsobj \<Rightarrow> string \<Rightarrow> jsval" where
  "field d k = (case d k of None \<Rightarrow> JUndefined | Some v \<Rightarrow> v)"

fun truthy :: "jsval \<Rightarrow> bool" where
  "truthy JUndefined = False"
| "truthy JNull = False"
| "truthy (JBool b) = b"
| "truthy JNaN = False"
| "truthy (JNum n) = (n \<noteq> 0)"
| "truthy (JStr s) = (s \<noteq> [])"
| "truthy (JArr xs) = True"
| "truthy (JObj kvs) = True"

text \<open>\<open>a || b\<close> and \<open>a ?? b\<close>.\<close>

definition js_or :: "jsval \<Rightarrow> jsval \<Rightarrow> jsval" where
  "js_or a b = (if truthy a then a else b)"

definition js_nullish :: "jsval \<Rightarrow> jsval \<Rightarrow> jsval" where
  "js_nullish a b = (if a = JUndefined \<or> a = JNull then b else a)"

text \<open>\<open>String.prototype.includes\<close>: the second string occurs in the first.\<close>

fun str_includes :: "string \<Rightarrow> string \<Rightarrow> bool" where
  "str_includes [] t = (t = [])"
| "str_includes (c # cs) t = (prefix t (c # cs) \<or> str_includes cs t)"

text \<open>Decimal digits of a natural number, as \<open>String(n)\<close> prints an integer below \<open>10^21\<close>.\<close>

definition digit_char :: "nat \<Rightarrow> char" where
  "digit_char d = ''0123456789'' ! d"

definition isDigit :: "char \<Rightarrow> bool" where
  "isDigit ch = (ch \<in> set ''0123456789'')"

fun dec :: "nat \<Rightarrow> string" where
  "dec n = (if n < 10 then [digit_char n] else dec (n div 10) @ [digit_char (n mod 10)])"

declare dec.simps [simp del]

fun intercalate :: "string \<Rightarrow> string list \<Rightarrow> string" where
  "intercalate sep [] = []"
| "intercalate sep [x] = x"
| "intercalate sep (x # y # ys) = x @ sep @ intercalate sep (y # ys)"

text \<open>
  \<open>ToString\<close>, as a template literal and \<open>Array.prototype.join\<close> apply it; \<open>join\<close>
  prints \<open>undefined\<close> and \<open>null\<close> elements as the empty string.
\<close>

fun js_toString :: "jsval \<Rightarrow> string" where
  "js_toString JUndefined = ''undefined''"
| "js_toString JNull = ''null''"
| "js_toString (JBool b) = (if b then ''true'' else ''false'')"
| "js_toString JNaN = ''NaN''"
| "js_toString (JNum n) = (if n < 0 then ''-'' @ dec (nat (- n)) else dec (nat n))"
| "js_toString (JStr s) = s"
| "js_toString (JArr xs) =
     intercalate '','' (map (\<lambda>x. if x = JUndefined \<or> x = JNull then [] else js_toString x) xs)"
| "js_toString (JObj kvs) = ''[object Object]''"

definition js_join :: "string \<Rightarrow> jsval list \<Rightarrow> string" where
  "js_join sep xs =
     intercalate sep (map (\<lambda>x. if x = JUndefined \<or> x = JNull then [] else js_toString x) xs)"

section \<open>URLs\<close>

text \<open>
  The utilities parse and print URLs with the platform's \<open>URL\<close> and
  \<open>URLSearchParams\<close> classes. The parsing of a string into a URL is the platform's: it
  is the parameter \<open>href\<close> of the functions below, which gives the URL in the form the
  platform prints it (the \<open>href\<close> of \<open>new URL(s)\<close>), or \<open>None\<close> when \<open>new URL(s)\<close>
  throws. In that form the query starts at the first \<open>?\<close> and the fragment at the first
  \<open>#\<close>. What the utilities do with a parsed URL is modelled in full: the list of query
  parameters, \<open>get\<close>, \<open>has\<close> and \<open>set\<close> on it, and its serialisation back into the
  query. Characters stand for the bytes of the UTF-8 form.
\<close>

type_synonym platform = "string \<Rightarrow> string option"

record url =
  base :: string
  searchParams :: "(string \<times> string) list"
  fragmentSuffix :: string

subsection \<open>The \<open>application/x-www-form-urlencoded\<close> format\<close>

definition isAlnum :: "char \<Rightarrow> bool" where
  "isAlnum ch =
     (ch \<in> set ''ABCDEFGHIJKLMNOPQRSTUVWXYZabcdefghijklmnopqrstuvwxyz0123456789'')"

definition hexDigit :: "nat \<Rightarrow> char" where
  "hexDigit d = ''0123456789ABCDEF'' ! d"

definition hexValue :: "char \<Rightarrow> nat option" where
  "hexValue ch = map_of
     [(CHR ''0'', 0), (CHR ''1'', 1), (CHR ''2'', 2), (CHR ''3'', 3), (CHR ''4'', 4),
      (CHR ''5'', 5), (CHR ''6'', 6), (CHR ''7'', 7), (CHR ''8'', 8), (CHR ''9'', 9),
      (CHR ''A'', 10), (CHR ''B'', 11), (CHR ''C'', 12), (CHR ''D'', 13), (CHR ''E'', 14),
      (CHR ''F'', 15), (CHR ''a'', 10), (CHR ''b'', 11), (CHR ''c'', 12), (CHR ''d'', 13),
      (CHR ''e'', 14), (CHR ''f'', 15)] ch"

text \<open>
  The serialiser keeps letters, digits and \<open>*-._\<close>, writes a space as \<open>+\<close> and every
  other byte as \<open>%\<close> and two hexadecimal digits.
\<close>

definition encodeChar :: "char \<Rightarrow> string" where
  "encodeChar ch =
     (if ch = CHR '' '' then ''+''
      else if isAlnum ch \<or> ch \<in> set ''*-._'' then [ch]
      else [CHR ''%'', hexDigit (of_char ch div 16), hexDigit (of_char ch mod 16)])"

definition encode :: "string \<Rightarrow> string" where
  "encode s = concat (map encodeChar s)"

definition serializeParams :: "(string \<times> string) list \<Rightarrow> string" where
  "serializeParams ps = intercalate ''&'' (map (\<lambda>(k, v). encode k @ ''='' @ encode v) ps)"

text \<open>
  The parser splits the query at \<open>&\<close>, drops empty pieces, splits each piece at its first
  \<open>=\<close>, and in name and value turns \<open>+\<close> into a space and decodes the percent escapes.
  The platform then reads the bytes as UTF-8 and puts \<open>U+FFFD\<close> for a sequence that is
  not; the model keeps the bytes, which is the same on well-formed UTF-8.
\<close>

fun splitOn :: "char \<Rightarrow> string \<Rightarrow> string list" where
  "splitOn sep [] = [[]]"
| "splitOn sep (ch # cs) =
     (if ch = sep then [] # splitOn sep cs
      else (case splitOn sep cs of piece # pieces \<Rightarrow> (ch # piece) # pieces
                                | [] \<Rightarrow> [[ch]]))"

fun percentDecode :: "string \<Rightarrow> string" where
  "percentDecode (ch # h1 # h2 # cs) =
     (case (ch = CHR ''%'', hexValue h1, hexValue h2) of
        (True, Some a, Some b) \<Rightarrow> char_of (16 * a + b) # percentDecode cs
      | _ \<Rightarrow> ch # percentDecode (h1 # h2 # cs))"
| "percentDecode (ch # cs) = ch # percentDecode cs"
| "percentDecode [] = []"

definition decode :: "string \<Rightarrow> string" where
  "decode s = percentDecode (map (\<lambda>ch. if ch = CHR ''+'' then CHR '' '' else ch) s)"

definition parsePair :: "string \<Rightarrow> string \<times> string" where
  "parsePair piece =
     (decode (takeWhile (\<lambda>ch. ch \<noteq> CHR ''='') piece),
      decode (drop 1 (dropWhile (\<lambda>ch. ch \<noteq> CHR ''='') piece)))"

definition parseQuery :: "string \<Rightarrow> (string \<times> string) list" where
  "parseQuery q = map parsePair (filter (\<lambda>piece. piece \<noteq> []) (splitOn CHR ''&'' q))"

subsection \<open>\<open>URL\<close> and \<open>URLSearchParams\<close>\<close>

text \<open>\<open>new URL(s)\<close>: the printed form cut into what precedes the query, the query and the rest.\<close>

definition notQueryOrFragment :: "char \<Rightarrow> bool" where
  "notQueryOrFragment ch = (ch \<noteq> CHR ''?'' \<and> ch \<noteq> CHR ''#'')"

definition cutHref :: "string \<Rightarrow> url" where
  "cutHref h =
     (let rest = dropWhile notQueryOrFragment h
      in \<lparr> base = takeWhile notQueryOrFragment h,
           searchParams = parseQuery (case rest of
               ch # r \<Rightarrow> if ch = CHR ''?'' then takeWhile (\<lambda>x. x \<noteq> CHR ''#'') r else []
             | [] \<Rightarrow> []),
           fragmentSuffix = dropWhile (\<lambda>x. x \<noteq> CHR ''#'') rest \<rparr>)"

definition new_URL :: "platform \<Rightarrow> string \<Rightarrow> url option" where
  "new_URL href s = map_option cutHref (href s)"

text \<open>
  \<open>searchParams.get\<close>, \<open>has\<close> and \<open>set\<close>: \<open>set\<close> writes the value into the first pair
  with the name and removes the other pairs with that name, or appends a pair.
\<close>

definition sp_get :: "(string \<times> string) list \<Rightarrow> string \<Rightarrow> string option" where
  "sp_get ps name = map_of ps name"

definition sp_has :: "(string \<times> string) list \<Rightarrow> string \<Rightarrow> bool" where
  "sp_has ps name = (name \<in> fst ` set ps)"

fun sp_set :: "(string \<times> string) list \<Rightarrow> string \<Rightarrow> string \<Rightarrow> (string \<times> string) list" where
  "sp_set [] name v = [(name, v)]"
| "sp_set ((k, w) # ps) name v =
     (if k = name then (name, v) # filter (\<lambda>(k', w'). k' \<noteq> name) ps
      else (k, w) # sp_set ps name v)"

text \<open>
  \<open>toString\<close> of a URL whose search params have been updated, as the utilities print
  it: the query is the serialisation of the list, and is left out when the list is empty.
\<close>

definition url_toString :: "url \<Rightarrow> string" where
  "url_toString u =
     base u @ (if searchParams u = [] then [] else ''?'' @ serializeParams (searchParams u))
       @ fragmentSuffix u"

subsection \<open>Numbers as text\<close>

text \<open>
  \<open>String(n)\<close> for a number whose value is the natural number \<open>n\<close>: the decimal
  digits below \<open>10^21\<close>, exponential notation from there on (the first digit, the
  further digits up to the last one that is not zero, and the exponent). Numbers are
  doubles. Every natural number below \<open>2^53\<close> is one, and so are the powers of ten up to
  \<open>10^22\<close>: for these the definition gives the printed text exactly. For another number
  from \<open>2^53\<close> on the platform prints the fewest digits that read back as the number,
  which can be fewer than the definition gives. \<open>parseInt(s, 10)\<close> skips white space
  (here the ASCII white space; the platform skips the other Unicode spaces as well), reads
  a sign and the longest run of digits, and gives \<open>NaN\<close> (\<open>None\<close>) when there is no
  digit. The model gives the integer that was read; the platform rounds it to the nearest
  double, which is the same integer below \<open>2^53\<close>.
\<close>

definition stripZeros :: "string \<Rightarrow> string" where
  "stripZeros ds = rev (dropWhile (\<lambda>ch. ch = CHR ''0'') (rev ds))"

definition js_String :: "nat \<Rightarrow> string" where
  "js_String n =
     (if n < 10 ^ 21 then dec n
      else (case stripZeros (dec n) of
              d # ds \<Rightarrow> d # (if ds = [] then [] else ''.'' @ ds) @ ''e+'' @ dec (length (dec n) - 1)
            | [] \<Rightarrow> []))"

definition digitValue :: "char \<Rightarrow> nat" where
  "digitValue ch = of_char ch - 48"

definition isWhite :: "char \<Rightarrow> bool" where
  "isWhite ch = (ch \<in> {CHR 0x20, CHR 0x09, CHR 0x0A, CHR 0x0B, CHR 0x0C, CHR 0x0D})"

definition readDigits :: "string \<Rightarrow> nat option" where
  "readDigits s =
     (let ds = takeWhile isDigit s
      in if ds = [] then None else Some (foldl (\<lambda>acc ch. 10 * acc + digitValue ch) 0 ds))"

definition parseInt10 :: "string \<Rightarrow> int option" where
  "parseInt10 s =
     (case dropWhile isWhite s of
        ch # cs \<Rightarrow>
          if ch = CHR ''-'' then map_option (\<lambda>n. - int n) (readDigits cs)
          else if ch = CHR ''+'' then map_option int (readDigits cs)
          else map_option int (readDigits (ch # cs))
      | [] \<Rightarrow> None)"

subsection \<open>The URL utilities\<close>

definition apiMarker :: string where
  "apiMarker = ''/jobs-guest/jobs/api/seeMoreJobPostings/''"

text \<open>
  The API endpoint is a URL in printed form already: \<open>new URL\<close> of it has this base, no
  parameter and no fragment.
\<close>

definition apiEndpoint :: url where
  "apiEndpoint = \<lparr> base = ''https://www.linkedin.com/jobs-guest/jobs/api/seeMoreJobPostings/search'',
                    searchParams = [], fragmentSuffix = [] \<rparr>"

definition toGuestApiUrl :: "platform \<Rightarrow> string \<Rightarrow> string" where
  "toGuestApiUrl href u =
     (if str_includes u apiMarker then u
      else case new_URL href u of
          None \<Rightarrow> u
        | Some parsed \<Rightarrow>
            let params = foldl (\<lambda>ps (k, v). sp_set ps k v) (searchParams apiEndpoint)
                           (searchParams parsed);
                params' = (if \<not> sp_has params ''start'' then sp_set params ''start'' ''0''
                           else params)
            in url_toString (apiEndpoint\<lparr>searchParams := params'\<rparr>))"

definition getStartParam :: "platform \<Rightarrow> string \<Rightarrow> int option" where
  "getStartParam href u =
     (case new_URL href u of
        None \<Rightarrow> Some 0
      | Some parsed \<Rightarrow>
          parseInt10 (case sp_get (searchParams parsed) ''start'' of
                        Some v \<Rightarrow> if v \<noteq> [] then v else ''0''
                      | None \<Rightarrow> ''0''))"

definition setStartParam :: "platform \<Rightarrow> string \<Rightarrow> nat \<Rightarrow> string" where
  "setStartParam href u start =
     (case new_URL href u of
        None \<Rightarrow> u
      | Some parsed \<Rightarrow>
          url_toString (parsed\<lparr>searchParams := sp_set (searchParams parsed) ''start''
                                                  (js_String start)\<rparr>))"

section \<open>Fetched pages and the login-wall classifier\<close>

text \<open>
  A fetched page, by what the handlers read from it: the number of elements a CSS selector
  matches (\<open>$(sel).length\<close>), the serialised markup (\<open>$.html()\<close>), and what the three
  parsers return for it.
\<close>

record page =
  matches :: "string \<Rightarrow> nat"
  html :: string
  jobCards :: "jsobj list"
  jobDetail :: jsobj
  companyPage :: jsobj

text \<open>The status code is \<open>response?.statusCode\<close>: \<open>None\<close> when there is no response.\<close>

definition isLoginWall :: "page \<Rightarrow> int option \<Rightarrow> bool" where
  "isLoginWall p statusCode =
     (if statusCode = Some 401 \<or> statusCode = Some 403 then True
      else
        let hasDescription = (matches p ''div.show-more-less-html__markup'' > 0 \<or>
                              matches p ''div.description__text'' > 0);
            hasCriteria = (matches p ''li.description__job-criteria-item'' > 0);
            hasCompanyInfo = (matches p ''section.core-section-container'' > 0 \<or>
                              matches p ''dt'' > 0)
        in if hasDescription \<or> hasCriteria \<or> hasCompanyInfo then False
           else
             let isAuthWall = (str_includes (html p) ''authwall'' \<or>
                               str_includes (html p) ''sign-in-modal'' \<or>
                               str_includes (html p) ''uas-login'');
                 isShortPage = (length (html p) < 5000)
             in isAuthWall \<or> (isShortPage \<and> str_includes (html p) ''/login''))"

section \<open>Utilities of the scraper\<close>

text \<open>
  A call that may throw: \<open>Throw\<close> stands for the \<open>TypeError\<close> JavaScript raises when
  a string method is called on a value that is not a string.
\<close>

datatype 'a res = Ok 'a | Throw

text \<open>
  \<open>formatPostedAt\<close>: a falsy value gives \<open>null\<close>; a string is cut at its first
  \<open>T\<close> and the date part is kept when it has the shape \<open>dddd-dd-dd\<close>.
\<close>

definition isYmd :: "string \<Rightarrow> bool" where
  "isYmd d = (case d of
       [y1, y2, y3, y4, s1, m1, m2, s2, d1, d2] \<Rightarrow>
         isDigit y1 \<and> isDigit y2 \<and> isDigit y3 \<and> isDigit y4 \<and> s1 = CHR ''-'' \<and>
         isDigit m1 \<and> isDigit m2 \<and> s2 = CHR ''-'' \<and> isDigit d1 \<and> isDigit d2
     | _ \<Rightarrow> False)"

definition formatPostedAt :: "jsval \<Rightarrow> jsval res" where
  "formatPostedAt postedAt =
     (if \<not> truthy postedAt then Ok JNull
      else case postedAt of
          JStr s \<Rightarrow>
            let date = takeWhile (\<lambda>ch. ch \<noteq> CHR ''T'') s
            in Ok (JStr (if isYmd date then date else s))
        | _ \<Rightarrow> Throw)"

text \<open>
  \<open>extractCompanySlug\<close>: the leftmost match of
  \<open>/linkedin\.com\/company\/([^/?#]+)/\<close>, that is the run of characters other than
  \<open>/\<close>, \<open>?\<close> and \<open>#\<close> after the first occurrence of the literal that is followed by
  such a character.
\<close>

definition slugChar :: "char \<Rightarrow> bool" where
  "slugChar ch = (ch \<noteq> CHR ''/'' \<and> ch \<noteq> CHR ''?'' \<and> ch \<noteq> CHR ''#'')"

fun slugMatch :: "string \<Rightarrow> string option" where
  "slugMatch [] = None"
| "slugMatch (ch # cs) =
     (if prefix ''linkedin.com/company/'' (ch # cs)
         \<and> takeWhile slugChar (drop 21 (ch # cs)) \<noteq> []
      then Some (takeWhile slugChar (drop 21 (ch # cs)))
      else slugMatch cs)"

definition extractCompanySlug :: "jsval \<Rightarrow> string option res" where
  "extractCompanySlug u =
     (if \<not> truthy u then Ok None
      else case u of JStr s \<Rightarrow> Ok (slugMatch s) | _ \<Rightarrow> Throw)"

section \<open>The orchestrator's state\<close>

text \<open>
  The actor's input, as far as the handlers read it, and the module variable
  \<open>inputUrl\<close>, which is assigned while the search queue is built and only read afterwards.
\<close>

record config =
  maxItems :: nat
  scrapeJobDetails :: bool
  scrapeCompany :: bool
  inputUrl :: string

text \<open>
  A request carries its kind in \<open>userData.type\<close>, with the fields of that kind:
  label and inputUrl for a search page, cardData for a job posting, slug and pendingJobs
  for a company page.
\<close>

datatype userData =
    SEARCH string string
  | JOB_DETAIL jsobj
  | COMPANY string "jsobj list"

record request =
  url :: string
  uniqueKey :: string
  userData :: userData
  retryCount :: nat

text \<open>A call of \<open>sleep\<close>, by the least and the greatest delay it may take (milliseconds).\<close>

datatype pause = Pause nat nat

text \<open>
  The module state: the counter, the id set, the company cache, the overflow lists, and
  the three collaborators the handlers write to: the request queue (every request it has
  accepted, in the order of acceptance), the dataset (the rows pushed) and the clock (the
  pauses taken), with the number of sessions retired.
\<close>

record state =
  totalScraped :: nat
  scrapedIds :: "jsval set"
  companyCache :: "string \<Rightarrow> jsobj option"
  pendingCompanies :: "string \<Rightarrow> jsobj list option"
  requestQueue :: "request list"
  dataset :: "(string \<times> jsval) list list"
  pauses :: "pause list"
  sessionsRetired :: nat

definition initialState :: "request list \<Rightarrow> state" where
  "initialState seeds =
     \<lparr> totalScraped = 0, scrapedIds = {}, companyCache = Map.empty,
       pendingCompanies = Map.empty, requestQueue = seeds, dataset = [], pauses = [],
       sessionsRetired = 0 \<rparr>"

text \<open>A handler returns or throws; when it throws, the crawler retries the request.\<close>

datatype outcome = Returned | Thrown

definition sleep :: "nat \<Rightarrow> nat \<Rightarrow> state \<Rightarrow> state" where
  "sleep lo hi st = st\<lparr>pauses := pauses st @ [Pause lo hi]\<rparr>"

text \<open>
  \<open>requestQueue.addRequest\<close>: the queue refuses a request whose unique key it has
  already accepted, and says so in \<open>wasAlreadyPresent\<close>.
\<close>

definition addRequest :: "request \<Rightarrow> state \<Rightarrow> bool \<times> state" where
  "addRequest r st =
     (if uniqueKey r \<in> set (map uniqueKey (requestQueue st)) then (True, st)
      else (False, st\<lparr>requestQueue := requestQueue st @ [r]\<rparr>))"

section \<open>Pushing a result\<close>

definition enDash :: string where
  "enDash = [CHR 0x20, CHR 0xE2, CHR 0x80, CHR 0x93, CHR 0x20]"

definition salaryStr :: "jsobj \<Rightarrow> jsval" where
  "salaryStr data =
     js_nullish (field data ''salary'')
       (case field data ''salaryInfo'' of
          JArr xs \<Rightarrow> if xs \<noteq> [] then JStr (js_join enDash (filter truthy xs)) else JStr []
        | _ \<Rightarrow> JStr [])"

text \<open>
  The object literal handed to \<open>Actor.pushData\<close>, as the list of its properties in the
  order they are written; the second argument is the value of \<open>formatPostedAt(data.postedAt)\<close>.
\<close>

definition outputRecord :: "config \<Rightarrow> jsobj \<Rightarrow> jsval \<Rightarrow> (string \<times> jsval) list" where
  "outputRecord c data formatted =
    [(''id'', js_or (field data ''id'') JNull),
     (''trackingId'', js_nullish (field data ''trackingId'') JNull),
     (''refId'', js_nullish (field data ''refId'') JNull),
     (''link'', js_or (field data ''link'') JNull),
     (''title'', js_or (field data ''title'') JNull),
     (''companyName'', js_or (field data ''companyName'') JNull),
     (''companyLinkedinUrl'', js_or (field data ''companyLinkedinUrl'') JNull),
     (''companyLogo'', js_or (field data ''companyLogo'') JNull),
     (''location'', js_or (field data ''location'') JNull),
     (''salaryInfo'', js_or (field data ''salaryInfo'') (JArr [])),
     (''salary'', js_or (salaryStr data) (JStr [])),
     (''postedAt'', js_or (js_or formatted (field data ''postedAt'')) JNull),
     (''benefits'', js_or (field data ''benefits'') (JArr [])),
     (''descriptionHtml'', js_or (field data ''descriptionHtml'') JNull),
     (''descriptionText'', js_or (field data ''descriptionText'') JNull),
     (''applicantsCount'', js_or (field data ''applicantsCount'') JNull),
     (''applyUrl'', js_nullish (field data ''applyUrl'') (JStr [])),
     (''jobPosterName'', js_or (field data ''jobPosterName'') JNull),
     (''jobPosterTitle'', js_or (field data ''jobPosterTitle'') JNull),
     (''jobPosterPhoto'', js_or (field data ''jobPosterPhoto'') JNull),
     (''jobPosterProfileUrl'', js_or (field data ''jobPosterProfileUrl'') JNull),
     (''seniorityLevel'', js_or (field data ''seniorityLevel'') JNull),
     (''employmentType'', js_or (field data ''employmentType'') JNull),
     (''jobFunction'', js_or (field data ''jobFunction'') JNull),
     (''industries'', js_or (field data ''industries'') JNull),
     (''inputUrl'', js_or (js_or (field data ''inputUrl'') (JStr (inputUrl c))) JNull),
     (''companyDescription'', js_or (field data ''companyDescription'') JNull),
     (''companyWebsite'', js_or (field data ''companyWebsite'') JNull),
     (''companyEmployeesCount'', js_nullish (field data ''companyEmployeesCount'') JNull),
     (''companyIndustry'', js_or (field data ''companyIndustry'') JNull),
     (''companySpecialties'', js_or (field data ''companySpecialties'') JNull),
     (''companyType'', js_or (field data ''companyType'') JNull),
     (''companyFounded'', js_or (field data ''companyFounded'') JNull),
     (''companyHeadquarters'', js_or (field data ''companyHeadquarters'') JNull),
     (''companySlogan'', js_or (field data ''companySlogan'') JNull),
     (''companyAddress'', js_or (field data ''companyAddress'') JNull)]"

text \<open>
  \<open>pushResult\<close>, with nothing else running between its guard and its last statement:
  nothing once the counter has reached \<open>maxItems\<close>; otherwise the row is appended to the
  dataset and the counter goes up by one. The row is built before the dataset is touched,
  so a throw of \<open>formatPostedAt\<close> leaves the state as it was.
\<close>

definition pushResult :: "config \<Rightarrow> jsobj \<Rightarrow> state \<Rightarrow> outcome \<times> state" where
  "pushResult c data st =
     (if totalScraped st \<ge> maxItems c then (Returned, st)
      else case formatPostedAt (field data ''postedAt'') of
          Throw \<Rightarrow> (Thrown, st)
        | Ok formatted \<Rightarrow>
            (Returned, st\<lparr>dataset := dataset st @ [outputRecord c data formatted],
                           totalScraped := Suc (totalScraped st)\<rparr>))"

text \<open>A \<open>for\<close> loop that pushes each job of a list; a throw ends it.\<close>

fun pushAll :: "config \<Rightarrow> jsobj list \<Rightarrow> state \<Rightarrow> outcome \<times> state" where
  "pushAll c [] st = (Returned, st)"
| "pushAll c (job # jobs) st =
     (case pushResult c job st of
        (Thrown, st') \<Rightarrow> (Thrown, st')
      | (Returned, st') \<Rightarrow> pushAll c jobs st')"

section \<open>The handlers\<close>

text \<open>
  Each handler, first, from its call to its end with no other handler in between: it
  takes the fields it reads from the request, the status code and the page, and returns
  the outcome with the new state. The handlers are taken apart at their \<open>await\<close>s, and
  run several at a time, further down. Log lines are left out.
\<close>

definition detailRequest :: "jsobj \<Rightarrow> jsobj \<Rightarrow> request" where
  "detailRequest jcard cardWithInput =
     \<lparr> url = ''https://www.linkedin.com/jobs-guest/jobs/api/jobPosting/''
               @ js_toString (field jcard ''id''),
       uniqueKey = ''detail-'' @ js_toString (field jcard ''id''),
       userData = JOB_DETAIL cardWithInput,
       retryCount = 0 \<rparr>"

text \<open>The loop over the cards of a search page.\<close>

fun searchLoop :: "config \<Rightarrow> string \<Rightarrow> jsobj list \<Rightarrow> state \<Rightarrow> outcome \<times> state" where
  "searchLoop c searchInputUrl [] st = (Returned, st)"
| "searchLoop c searchInputUrl (jcard # cards) st =
     (if totalScraped st \<ge> maxItems c then (Returned, st)
      else if field jcard ''id'' \<in> scrapedIds st then searchLoop c searchInputUrl cards st
      else
        let st1 = st\<lparr>scrapedIds := insert (field jcard ''id'') (scrapedIds st)\<rparr>;
            cardWithInput = jcard(''inputUrl'' \<mapsto> JStr searchInputUrl)
        in if scrapeJobDetails c
           then searchLoop c searchInputUrl cards
                  (snd (addRequest (detailRequest jcard cardWithInput) st1))
           else (case pushResult c cardWithInput st1 of
                   (Thrown, st2) \<Rightarrow> (Thrown, st2)
                 | (Returned, st2) \<Rightarrow> searchLoop c searchInputUrl cards st2))"

definition handleSearch ::
  "config \<Rightarrow> string \<Rightarrow> int option \<Rightarrow> page \<Rightarrow> state \<Rightarrow> outcome \<times> state" where
  "handleSearch c requestInputUrl statusCode p st =
     (if totalScraped st \<ge> maxItems c then (Returned, st)
      else if statusCode = Some 429 then (Returned, sleep 5000 5000 st)
      else if statusCode \<noteq> Some 200 then (Returned, st)
      else if jobCards p = [] then (Returned, st)
      else
        let searchInputUrl = (if requestInputUrl \<noteq> [] then requestInputUrl else inputUrl c)
        in case searchLoop c searchInputUrl (jobCards p) st of
             (Thrown, st') \<Rightarrow> (Thrown, st')
           | (Returned, st') \<Rightarrow> (Returned, sleep 300 800 st'))"

definition companyRequest :: "string \<Rightarrow> jsobj \<Rightarrow> request" where
  "companyRequest slug merged =
     \<lparr> url = ''https://www.linkedin.com/company/'' @ slug,
       uniqueKey = ''company-'' @ slug,
       userData = COMPANY slug [merged],
       retryCount = 0 \<rparr>"

text \<open>The statement that ends \<open>handleJobDetail\<close> on the paths that do not return early.\<close>

definition thenSleep :: "nat \<Rightarrow> nat \<Rightarrow> outcome \<times> state \<Rightarrow> outcome \<times> state" where
  "thenSleep lo hi r = (case r of (Thrown, st) \<Rightarrow> (Thrown, st)
                               | (Returned, st) \<Rightarrow> (Returned, sleep lo hi st))"

definition handleJobDetail ::
  "config \<Rightarrow> jsobj \<Rightarrow> nat \<Rightarrow> int option \<Rightarrow> page \<Rightarrow> state \<Rightarrow> outcome \<times> state" where
  "handleJobDetail c cardData retries statusCode p st =
     (if totalScraped st \<ge> maxItems c then (Returned, st)
      else if statusCode = Some 429 \<or> statusCode = Some 999
        then (Thrown, sleep (retries * 3000 + 2000) (retries * 3000 + 5000) st)
      else if isLoginWall p statusCode then pushResult c cardData st
      else if statusCode \<noteq> Some 200 then pushResult c cardData st
      else
        let merged = cardData ++ jobDetail p
        in if scrapeCompany c \<and> truthy (field cardData ''companyLinkedinUrl'')
           then (case extractCompanySlug (field cardData ''companyLinkedinUrl'') of
                Throw \<Rightarrow> (Thrown, st)
              | Ok None \<Rightarrow> thenSleep 200 600 (pushResult c merged st)
              | Ok (Some slug) \<Rightarrow>
                  (case companyCache st slug of
                     Some cached \<Rightarrow> thenSleep 200 600 (pushResult c (merged ++ cached) st)
                   | None \<Rightarrow>
                       (case addRequest (companyRequest slug merged) st of
                          (False, st1) \<Rightarrow>
                            (Returned, sleep 200 600
                               (st1\<lparr>pendingCompanies := (pendingCompanies st1)(slug \<mapsto> [])\<rparr>))
                        | (True, st1) \<Rightarrow>
                            (case companyCache st1 slug of
                               Some cached \<Rightarrow>
                                 thenSleep 200 600 (pushResult c (merged ++ cached) st1)
                             | None \<Rightarrow>
                                 (Returned, sleep 200 600
                                    (st1\<lparr>pendingCompanies := (pendingCompanies st1)
                                       (slug \<mapsto> (case pendingCompanies st1 slug of
                                                    None \<Rightarrow> [] | Some js \<Rightarrow> js) @ [merged])\<rparr>))))))
           else thenSleep 200 600 (pushResult c merged st))"

text \<open>
  The end of \<open>handleCompany\<close>: the jobs carried by the request, then the overflow list of
  the slug, each merged with the company data and pushed; then the list is deleted.
\<close>

definition overflowOf :: "state \<Rightarrow> string \<Rightarrow> jsobj list" where
  "overflowOf st slug = (case pendingCompanies st slug of None \<Rightarrow> [] | Some js \<Rightarrow> js)"

definition pushPending ::
  "config \<Rightarrow> string \<Rightarrow> jsobj list \<Rightarrow> jsobj \<Rightarrow> state \<Rightarrow> outcome \<times> state" where
  "pushPending c slug pendingJobs companyData st =
     (case pushAll c (map (\<lambda>job. job ++ companyData) pendingJobs) st of
        (Thrown, st1) \<Rightarrow> (Thrown, st1)
      | (Returned, st1) \<Rightarrow>
          (case pushAll c (map (\<lambda>job. job ++ companyData) (overflowOf st1 slug)) st1 of
             (Thrown, st2) \<Rightarrow> (Thrown, st2)
           | (Returned, st2) \<Rightarrow>
               (Returned, sleep 300 700
                  (st2\<lparr>pendingCompanies := (pendingCompanies st2)(slug := None)\<rparr>))))"

definition retire :: "state \<Rightarrow> state" where
  "retire st = st\<lparr>sessionsRetired := Suc (sessionsRetired st)\<rparr>"

definition handleCompany ::
  "config \<Rightarrow> string \<Rightarrow> jsobj list \<Rightarrow> nat \<Rightarrow> int option \<Rightarrow> page \<Rightarrow> state
     \<Rightarrow> outcome \<times> state" where
  "handleCompany c slug pendingJobs retries statusCode p st =
     (if statusCode = Some 999 \<or> statusCode = Some 429 then
        (if retries < 4
         then (Thrown, sleep (retries * 2000 + 1000) (retries * 2000 + 3000) (retire st))
         else pushPending c slug pendingJobs Map.empty
                (st\<lparr>companyCache := (companyCache st)(slug \<mapsto> Map.empty)\<rparr>))
      else if statusCode = Some 200 \<and> \<not> isLoginWall p statusCode then
        pushPending c slug pendingJobs (companyPage p)
          (st\<lparr>companyCache := (companyCache st)(slug \<mapsto> companyPage p)\<rparr>)
      else if isLoginWall p statusCode \<and> retries < 4 then (Thrown, retire st)
      else pushPending c slug pendingJobs Map.empty
             (st\<lparr>companyCache := (companyCache st)(slug \<mapsto> Map.empty)\<rparr>))"

text \<open>The crawler's \<open>requestHandler\<close> and \<open>failedRequestHandler\<close>.\<close>

definition requestHandler ::
  "config \<Rightarrow> request \<Rightarrow> int option \<Rightarrow> page \<Rightarrow> state \<Rightarrow> outcome \<times> state" where
  "requestHandler c request statusCode p st =
     (case userData request of
        SEARCH label requestInputUrl \<Rightarrow> handleSearch c requestInputUrl statusCode p st
      | JOB_DETAIL cardData \<Rightarrow>
          handleJobDetail c cardData (retryCount request) statusCode p st
      | COMPANY slug pendingJobs \<Rightarrow>
          handleCompany c slug pendingJobs (retryCount request) statusCode p st)"

definition failedRequestHandler :: "config \<Rightarrow> request \<Rightarrow> state \<Rightarrow> outcome \<times> state" where
  "failedRequestHandler c request st =
     (case userData request of
        SEARCH label requestInputUrl \<Rightarrow> (Returned, st)
      | JOB_DETAIL cardData \<Rightarrow> pushResult c cardData st
      | COMPANY slug pendingJobs \<Rightarrow>
          (case pushAll c (pendingJobs @ overflowOf st slug)
                  (st\<lparr>companyCache := (companyCache st)(slug \<mapsto> Map.empty)\<rparr>) of
             (Thrown, st1) \<Rightarrow> (Thrown, st1)
           | (Returned, st1) \<Rightarrow>
               (Returned, st1\<lparr>pendingCompanies := (pendingCompanies st1)(slug := None)\<rparr>)))"

text \<open>
  A run in which no two handlers overlap is a sequence of completed fetches, handled one
  at a time: a fetch that came back with a status and a page goes to \<open>requestHandler\<close>,
  a request the crawler has given up on goes to \<open>failedRequestHandler\<close>.
\<close>

datatype event = Fetched request "int option" page | GaveUp request

fun step :: "config \<Rightarrow> event \<Rightarrow> state \<Rightarrow> outcome \<times> state" where
  "step c (Fetched request statusCode p) st = requestHandler c request statusCode p st"
| "step c (GaveUp request) st = failedRequestHandler c request st"

fun run :: "config \<Rightarrow> event list \<Rightarrow> state \<Rightarrow> state" where
  "run c [] st = st"
| "run c (e # es) st = run c es (snd (step c e st))"

section \<open>Handlers that overlap\<close>

text \<open>
  The crawler runs up to three handlers at a time (\<open>maxConcurrency: 3\<close>). A handler runs
  without interruption from one \<open>await\<close> to the next; at an \<open>await\<close> it is suspended, and
  any other handler may run before it goes on. The handlers await \<open>pushResult\<close>,
  \<open>requestQueue.addRequest\<close> and \<open>sleep\<close>; \<open>pushResult\<close> itself awaits
  \<open>Actor.pushData\<close> between its budget guard and \<open>totalScraped++\<close>, and when it returns
  at the guard its caller is suspended all the same, with nothing done. The dataset takes
  the row, the queue the request (in the order of the calls) and the clock the pause when
  the call is made; the caller goes on when the promise resolves, at a later step.

  What remains of a suspended handler is written as a continuation: the place in the
  source where it goes on, with the local variables it still reads.
\<close>

datatype wait = PushData | PushGuarded | AddRequest | Sleep

datatype kont =
    Return
  | ThrowError
  | FinalSleep nat nat
  | SearchCards string "jsobj list"
  | CompanyAdded string jsobj bool
  | Passengers string jsobj "jsobj list"
  | Overflow string jsobj "jsobj list"
  | FailedJobs string "jsobj list"

datatype task = Awaiting wait kont | Done outcome

text \<open>
  \<open>pushResult\<close> up to the point where the handler is suspended: at the cap it returns
  at once, and the caller, which awaits it, is suspended with nothing under way
  (\<open>PushGuarded\<close>); a throw of \<open>formatPostedAt\<close> ends the handler; otherwise the row is
  handed to the dataset (\<open>PushData\<close>). When the handler goes on after
  \<open>Actor.pushData\<close>, \<open>totalScraped++\<close> comes first (see \<open>resume\<close>), then the
  continuation \<open>k\<close> of the caller.
\<close>

definition pushResult_async :: "config \<Rightarrow> jsobj \<Rightarrow> kont \<Rightarrow> state \<Rightarrow> task \<times> state" where
  "pushResult_async c data k st =
     (if totalScraped st \<ge> maxItems c then (Awaiting PushGuarded k, st)
      else case formatPostedAt (field data ''postedAt'') of
          Throw \<Rightarrow> (Done Thrown, st)
        | Ok formatted \<Rightarrow>
            (Awaiting PushData k, st\<lparr>dataset := dataset st @ [outputRecord c data formatted]\<rparr>))"

text \<open>The last statement of the handlers that end with a pause.\<close>

definition finalSleep :: "nat \<Rightarrow> nat \<Rightarrow> state \<Rightarrow> task \<times> state" where
  "finalSleep lo hi st = (Awaiting Sleep Return, sleep lo hi st)"

text \<open>
  The card loop of \<open>handleSearch\<close>, from the next card on; after the loop the handler
  pauses and returns.
\<close>

fun searchCards :: "config \<Rightarrow> string \<Rightarrow> jsobj list \<Rightarrow> state \<Rightarrow> task \<times> state" where
  "searchCards c searchInputUrl [] st = finalSleep 300 800 st"
| "searchCards c searchInputUrl (jcard # cards) st =
     (if totalScraped st \<ge> maxItems c then finalSleep 300 800 st
      else if field jcard ''id'' \<in> scrapedIds st then searchCards c searchInputUrl cards st
      else
        let st1 = st\<lparr>scrapedIds := insert (field jcard ''id'') (scrapedIds st)\<rparr>;
            cardWithInput = jcard(''inputUrl'' \<mapsto> JStr searchInputUrl)
        in if scrapeJobDetails c
           then (Awaiting AddRequest (SearchCards searchInputUrl cards),
                 snd (addRequest (detailRequest jcard cardWithInput) st1))
           else pushResult_async c cardWithInput (SearchCards searchInputUrl cards) st1)"

definition handleSearch_async ::
  "config \<Rightarrow> string \<Rightarrow> int option \<Rightarrow> page \<Rightarrow> state \<Rightarrow> task \<times> state" where
  "handleSearch_async c requestInputUrl statusCode p st =
     (if totalScraped st \<ge> maxItems c then (Done Returned, st)
      else if statusCode = Some 429 then (Awaiting Sleep Return, sleep 5000 5000 st)
      else if statusCode \<noteq> Some 200 then (Done Returned, st)
      else if jobCards p = [] then (Done Returned, st)
      else searchCards c (if requestInputUrl \<noteq> [] then requestInputUrl else inputUrl c)
             (jobCards p) st)"

text \<open>
  \<open>handleJobDetail\<close> up to its first \<open>await\<close>, and from the \<open>await\<close> of \<open>addRequest\<close> on:
  the handler that added the company request sets the overflow list of the slug to the
  empty list; a handler that found the request present looks at the cache again and
  pushes, or parks its job in the overflow list.
\<close>

definition handleJobDetail_async ::
  "config \<Rightarrow> jsobj \<Rightarrow> nat \<Rightarrow> int option \<Rightarrow> page \<Rightarrow> state \<Rightarrow> task \<times> state" where
  "handleJobDetail_async c cardData retries statusCode p st =
     (if totalScraped st \<ge> maxItems c then (Done Returned, st)
      else if statusCode = Some 429 \<or> statusCode = Some 999
        then (Awaiting Sleep ThrowError,
              sleep (retries * 3000 + 2000) (retries * 3000 + 5000) st)
      else if isLoginWall p statusCode
        then pushResult_async c cardData Return st
      else if statusCode \<noteq> Some 200
        then pushResult_async c cardData Return st
      else
        let merged = cardData ++ jobDetail p
        in if scrapeCompany c \<and> truthy (field cardData ''companyLinkedinUrl'')
           then (case extractCompanySlug (field cardData ''companyLinkedinUrl'') of
                Throw \<Rightarrow> (Done Thrown, st)
              | Ok None \<Rightarrow>
                  pushResult_async c merged (FinalSleep 200 600) st
              | Ok (Some slug) \<Rightarrow>
                  (case companyCache st slug of
                     Some cached \<Rightarrow>
                       pushResult_async c (merged ++ cached) (FinalSleep 200 600) st
                   | None \<Rightarrow>
                       (case addRequest (companyRequest slug merged) st of
                          (wasAlreadyPresent, st1) \<Rightarrow>
                            (Awaiting AddRequest (CompanyAdded slug merged wasAlreadyPresent),
                             st1))))
           else pushResult_async c merged (FinalSleep 200 600) st)"

definition companyAdded :: "config \<Rightarrow> string \<Rightarrow> jsobj \<Rightarrow> bool \<Rightarrow> state \<Rightarrow> task \<times> state" where
  "companyAdded c slug merged wasAlreadyPresent st =
     (if \<not> wasAlreadyPresent
      then finalSleep 200 600 (st\<lparr>pendingCompanies := (pendingCompanies st)(slug \<mapsto> [])\<rparr>)
      else case companyCache st slug of
          Some cached \<Rightarrow>
            pushResult_async c (merged ++ cached) (FinalSleep 200 600) st
        | None \<Rightarrow>
            finalSleep 200 600
              (st\<lparr>pendingCompanies := (pendingCompanies st)
                    (slug \<mapsto> (case pendingCompanies st slug of
                                 None \<Rightarrow> [] | Some js \<Rightarrow> js) @ [merged])\<rparr>))"

text \<open>
  The two loops that end \<open>handleCompany\<close>. The overflow list is read when the loop over
  the request's own jobs is done. While the second loop runs nothing is appended to the
  list it iterates: the cache has had the slug since the handler set it, and a job is
  appended only by a handler that finds the cache without the slug.
\<close>

fun overflowLoop ::
  "config \<Rightarrow> string \<Rightarrow> jsobj \<Rightarrow> jsobj list \<Rightarrow> state \<Rightarrow> task \<times> state" where
  "overflowLoop c slug companyData [] st =
     finalSleep 300 700 (st\<lparr>pendingCompanies := (pendingCompanies st)(slug := None)\<rparr>)"
| "overflowLoop c slug companyData (job # jobs) st =
     pushResult_async c (job ++ companyData) (Overflow slug companyData jobs) st"

fun passengerLoop ::
  "config \<Rightarrow> string \<Rightarrow> jsobj \<Rightarrow> jsobj list \<Rightarrow> state \<Rightarrow> task \<times> state" where
  "passengerLoop c slug companyData [] st =
     overflowLoop c slug companyData (overflowOf st slug) st"
| "passengerLoop c slug companyData (job # jobs) st =
     pushResult_async c (job ++ companyData) (Passengers slug companyData jobs) st"

definition handleCompany_async ::
  "config \<Rightarrow> string \<Rightarrow> jsobj list \<Rightarrow> nat \<Rightarrow> int option \<Rightarrow> page \<Rightarrow> state
     \<Rightarrow> task \<times> state" where
  "handleCompany_async c slug pendingJobs retries statusCode p st =
     (if statusCode = Some 999 \<or> statusCode = Some 429 then
        (if retries < 4
         then (Awaiting Sleep ThrowError,
               sleep (retries * 2000 + 1000) (retries * 2000 + 3000) (retire st))
         else passengerLoop c slug Map.empty pendingJobs
                (st\<lparr>companyCache := (companyCache st)(slug \<mapsto> Map.empty)\<rparr>))
      else if statusCode = Some 200 \<and> \<not> isLoginWall p statusCode then
        passengerLoop c slug (companyPage p) pendingJobs
          (st\<lparr>companyCache := (companyCache st)(slug \<mapsto> companyPage p)\<rparr>)
      else if isLoginWall p statusCode \<and> retries < 4 then (Done Thrown, retire st)
      else passengerLoop c slug Map.empty pendingJobs
             (st\<lparr>companyCache := (companyCache st)(slug \<mapsto> Map.empty)\<rparr>))"

text \<open>
  The loop of \<open>failedRequestHandler\<close> over the copy \<open>[...pendingJobs, ...overflow]\<close>,
  which is made before the first push.
\<close>

fun failedLoop :: "config \<Rightarrow> string \<Rightarrow> jsobj list \<Rightarrow> state \<Rightarrow> task \<times> state" where
  "failedLoop c slug [] st =
     (Done Returned, st\<lparr>pendingCompanies := (pendingCompanies st)(slug := None)\<rparr>)"
| "failedLoop c slug (job # jobs) st =
     pushResult_async c job (FailedJobs slug jobs) st"

definition failedRequestHandler_async :: "config \<Rightarrow> request \<Rightarrow> state \<Rightarrow> task \<times> state" where
  "failedRequestHandler_async c request st =
     (case userData request of
        SEARCH label requestInputUrl \<Rightarrow> (Done Returned, st)
      | JOB_DETAIL cardData \<Rightarrow> pushResult_async c cardData Return st
      | COMPANY slug pendingJobs \<Rightarrow>
          failedLoop c slug (pendingJobs @ overflowOf st slug)
            (st\<lparr>companyCache := (companyCache st)(slug \<mapsto> Map.empty)\<rparr>))"

definition requestHandler_async ::
  "config \<Rightarrow> request \<Rightarrow> int option \<Rightarrow> page \<Rightarrow> state \<Rightarrow> task \<times> state" where
  "requestHandler_async c request statusCode p st =
     (case userData request of
        SEARCH label requestInputUrl \<Rightarrow> handleSearch_async c requestInputUrl statusCode p st
      | JOB_DETAIL cardData \<Rightarrow>
          handleJobDetail_async c cardData (retryCount request) statusCode p st
      | COMPANY slug pendingJobs \<Rightarrow>
          handleCompany_async c slug pendingJobs (retryCount request) statusCode p st)"

text \<open>
  A handler is started by the crawler, on a fetch that came back or on a request it has
  given up on, and runs to its first \<open>await\<close>. A suspended handler goes on from its
  continuation; after \<open>Actor.pushData\<close> the counter goes up first.
\<close>

fun start :: "config \<Rightarrow> event \<Rightarrow> state \<Rightarrow> task \<times> state" where
  "start c (Fetched request statusCode p) st = requestHandler_async c request statusCode p st"
| "start c (GaveUp request) st = failedRequestHandler_async c request st"

fun continue :: "config \<Rightarrow> kont \<Rightarrow> state \<Rightarrow> task \<times> state" where
  "continue c Return st = (Done Returned, st)"
| "continue c ThrowError st = (Done Thrown, st)"
| "continue c (FinalSleep lo hi) st = finalSleep lo hi st"
| "continue c (SearchCards searchInputUrl cards) st = searchCards c searchInputUrl cards st"
| "continue c (CompanyAdded slug merged wasAlreadyPresent) st =
     companyAdded c slug merged wasAlreadyPresent st"
| "continue c (Passengers slug companyData jobs) st = passengerLoop c slug companyData jobs st"
| "continue c (Overflow slug companyData jobs) st = overflowLoop c slug companyData jobs st"
| "continue c (FailedJobs slug jobs) st = failedLoop c slug jobs st"

definition resume :: "config \<Rightarrow> wait \<Rightarrow> kont \<Rightarrow> state \<Rightarrow> task \<times> state" where
  "resume c w k st =
     continue c k (if w = PushData then st\<lparr>totalScraped := Suc (totalScraped st)\<rparr> else st)"

text \<open>
  The crawler with the handlers it has started, in the order it started them. A move
  starts a handler, when fewer than \<open>maxConcurrency\<close> handlers are running, or lets a
  suspended handler go on; a move that is not possible leaves everything as it is. A
  schedule is a list of moves.
\<close>

record system =
  shared :: state
  tasks :: "task list"

datatype move = Begin event | Resume nat

definition maxConcurrency :: nat where
  "maxConcurrency = 3"

definition running :: "task \<Rightarrow> bool" where
  "running t = (case t of Awaiting w k \<Rightarrow> True | Done out \<Rightarrow> False)"

definition inFlight :: "system \<Rightarrow> nat" where
  "inFlight s = length (filter running (tasks s))"

definition advance :: "config \<Rightarrow> move \<Rightarrow> system \<Rightarrow> system" where
  "advance c m s =
     (case m of
        Begin e \<Rightarrow>
          if inFlight s < maxConcurrency
          then (case start c e (shared s) of
                  (t, st) \<Rightarrow> \<lparr>shared = st, tasks = tasks s @ [t]\<rparr>)
          else s
      | Resume i \<Rightarrow>
          if i < length (tasks s)
          then (case tasks s ! i of
                  Awaiting w k \<Rightarrow>
                    (case resume c w k (shared s) of
                       (t, st) \<Rightarrow> \<lparr>shared = st, tasks = (tasks s)[i := t]\<rparr>)
                | Done out \<Rightarrow> s)
          else s)"

fun crawl :: "config \<Rightarrow> move list \<Rightarrow> system \<Rightarrow> system" where
  "crawl c [] s = s"
| "crawl c (m # ms) s = crawl c ms (advance c m s)"


text \<open>
  A handler that goes on \<open>n\<close> times with no other handler in between, and the outcome
  and state it finishes with when it is left alone long enough.
\<close>

fun alone :: "config \<Rightarrow> nat \<Rightarrow> task \<times> state \<Rightarrow> task \<times> state" where
  "alone c 0 r = r"
| "alone c (Suc n) (Awaiting w k, st) = alone c n (resume c w k st)"
| "alone c (Suc n) (Done out, st) = (Done out, st)"

definition finishes :: "config \<Rightarrow> task \<times> state \<Rightarrow> outcome \<times> state \<Rightarrow> bool" where
  "finishes c r final = (\<exists>n. alone c n r = (Done (fst final), snd final))"

section \<open>Properties of pages and rows\<close>

text \<open>A page with recognisable job or company content.\<close>

definition hasContent :: "page \<Rightarrow> bool" where
  "hasContent p =
     (matches p ''div.show-more-less-html__markup'' > 0 \<or>
      matches p ''div.description__text'' > 0 \<or>
      matches p ''li.description__job-criteria-item'' > 0 \<or>
      matches p ''section.core-section-container'' > 0 \<or>
      matches p ''dt'' > 0)"

text \<open>
  The property names of a pushed row, in the order of the object literal; a value counts as
  absent when it is \<open>undefined\<close> or \<open>null\<close>; the default a row shows for an absent
  value is the empty array for the two array fields, the empty string for \<open>applyUrl\<close>
  and \<open>salary\<close>, and \<open>null\<close> for the others.
\<close>

definition outputFields :: "string list" where
  "outputFields =
    [''id'', ''trackingId'', ''refId'', ''link'', ''title'', ''companyName'',
     ''companyLinkedinUrl'', ''companyLogo'', ''location'', ''salaryInfo'', ''salary'',
     ''postedAt'', ''benefits'', ''descriptionHtml'', ''descriptionText'',
     ''applicantsCount'', ''applyUrl'', ''jobPosterName'', ''jobPosterTitle'',
     ''jobPosterPhoto'', ''jobPosterProfileUrl'', ''seniorityLevel'', ''employmentType'',
     ''jobFunction'', ''industries'', ''inputUrl'', ''companyDescription'',
     ''companyWebsite'', ''companyEmployeesCount'', ''companyIndustry'',
     ''companySpecialties'', ''companyType'', ''companyFounded'', ''companyHeadquarters'',
     ''companySlogan'', ''companyAddress'']"

definition noValue :: "jsval \<Rightarrow> bool" where
  "noValue v = (v = JUndefined \<or> v = JNull)"

definition defaultValue :: "string \<Rightarrow> jsval" where
  "defaultValue k =
     (if k = ''salaryInfo'' \<or> k = ''benefits'' then JArr []
      else if k = ''applyUrl'' \<or> k = ''salary'' then JStr []
      else JNull)"

text \<open>
  A job can be pushed when \<open>formatPostedAt\<close> does not throw on it, that is when its
  \<open>postedAt\<close> is a string or falsy, as the card parser leaves it; \<open>rowOf\<close> is the row
  \<open>pushResult\<close> builds for it, and \<open>pushed\<close> the state after the rows of a list of jobs
  have been appended.
\<close>

definition pushable :: "jsobj \<Rightarrow> bool" where
  "pushable data = (formatPostedAt (field data ''postedAt'') \<noteq> Throw)"

definition rowOf :: "config \<Rightarrow> jsobj \<Rightarrow> (string \<times> jsval) list" where
  "rowOf c data =
     outputRecord c data (case formatPostedAt (field data ''postedAt'') of Ok f \<Rightarrow> f | Throw \<Rightarrow> JNull)"

definition pushed :: "config \<Rightarrow> jsobj list \<Rightarrow> state \<Rightarrow> state" where
  "pushed c jobs st =
     st\<lparr>dataset := dataset st @ map (rowOf c) jobs,
        totalScraped := totalScraped st + length jobs\<rparr>"

text \<open>
  Relations between the state a handler starts in and the state it leaves, and the
  well-formedness of the request queue: unique keys are pairwise different, the key of a
  job request is \<open>detail-\<close> followed by the job id, the key of a company request is
  \<open>company-\<close> followed by the slug, and the key of a search request (its URL) does not
  begin with \<open>company-\<close>.
\<close>

definition onlyPushes :: "state \<Rightarrow> state \<Rightarrow> bool" where
  "onlyPushes st st' =
     (\<exists>rows n. st' = st\<lparr>dataset := dataset st @ rows, totalScraped := totalScraped st + n\<rparr>)"

definition keyed :: "request \<Rightarrow> bool" where
  "keyed r = (case userData r of
       SEARCH label u \<Rightarrow> \<not> prefix ''company-'' (uniqueKey r)
     | JOB_DETAIL cardData \<Rightarrow> uniqueKey r = ''detail-'' @ js_toString (field cardData ''id'')
     | COMPANY slug jobs \<Rightarrow> uniqueKey r = ''company-'' @ slug)"

definition queueOk :: "state \<Rightarrow> bool" where
  "queueOk st = (distinct (map uniqueKey (requestQueue st)) \<and> (\<forall>r\<in>set (requestQueue st). keyed r))"

definition isDetailFor :: "jsval \<Rightarrow> request \<Rightarrow> bool" where
  "isDetailFor jid r = (case userData r of JOB_DETAIL cardData \<Rightarrow> field cardData ''id'' = jid | _ \<Rightarrow> False)"


definition orderly :: "state \<Rightarrow> state \<Rightarrow> bool" where
  "orderly st st' =
     (scrapedIds st \<subseteq> scrapedIds st' \<and> (queueOk st \<longrightarrow> queueOk st')
      \<and> prefix (requestQueue st) (requestQueue st') \<and> prefix (dataset st) (dataset st'))"

text \<open>
  The company handler throws, which makes the crawler retry, on a rate-limit status or a
  login wall while the request has been retried fewer than four times; otherwise it
  resolves the company to the parsed page (status 200, no login wall) or to the empty
  object.
\<close>

definition companyThrows :: "nat \<Rightarrow> int option \<Rightarrow> page \<Rightarrow> bool" where
  "companyThrows retries statusCode p =
     (retries < 4 \<and> (statusCode = Some 999 \<or> statusCode = Some 429
                      \<or> isLoginWall p statusCode))"

definition companyDataOf :: "int option \<Rightarrow> page \<Rightarrow> jsobj" where
  "companyDataOf statusCode p =
     (if statusCode = Some 200 \<and> \<not> isLoginWall p statusCode then companyPage p else Map.empty)"




text \<open>
  The characters the query serialiser writes as they are, and the characters that occur in
  what it writes.
\<close>

definition isSafe :: "char \<Rightarrow> bool" where
  "isSafe ch = (isAlnum ch \<or> ch \<in> set ''*-._'')"

definition isEncoded :: "char \<Rightarrow> bool" where
  "isEncoded ch = (isSafe ch \<or> ch = CHR ''+'' \<or> ch = CHR ''%'')"















section \<open>Concrete inputs\<close>

definition wallPage :: page where
  "wallPage = \<lparr> matches = (\<lambda>sel. if sel = ''div.description__text'' then 1 else 0),
                html = ''<a href=/login>authwall</a>'',
                jobCards = [], jobDetail = Map.empty, companyPage = Map.empty \<rparr>"

definition humanUrl :: string where
  "humanUrl = ''https://www.linkedin.com/jobs/search/?keywords=dev''"

definition config0 :: config where
  "config0 = \<lparr> maxItems = 25, scrapeJobDetails = False, scrapeCompany = False, inputUrl = humanUrl \<rparr>"

definition job1 :: jsobj where
  "job1 = [''id'' \<mapsto> JStr ''4000000001'', ''title'' \<mapsto> JStr ''Engineer'',
           ''companyName'' \<mapsto> JStr ''Acme'',
           ''companyLinkedinUrl'' \<mapsto> JStr ''https://www.linkedin.com/company/acme'',
           ''postedAt'' \<mapsto> JStr ''2025-01-02'']"

definition job2 :: jsobj where
  "job2 = [''id'' \<mapsto> JStr ''4000000002'', ''title'' \<mapsto> JStr ''Analyst'',
           ''companyName'' \<mapsto> JStr ''Acme'',
           ''companyLinkedinUrl'' \<mapsto> JStr ''https://www.linkedin.com/company/acme?trk=x'',
           ''postedAt'' \<mapsto> JNull]"

definition config1 :: config where
  "config1 = \<lparr> maxItems = 1, scrapeJobDetails = False, scrapeCompany = True, inputUrl = humanUrl \<rparr>"

definition emptyPage :: page where
  "emptyPage = \<lparr> matches = (\<lambda>sel. 0), html = [], jobCards = [], jobDetail = Map.empty,
                 companyPage = Map.empty \<rparr>"

definition searchRequest :: request where
  "searchRequest =
     \<lparr> url = ''https://www.linkedin.com/jobs-guest/jobs/api/seeMoreJobPostings/search?keywords=dev&start=0'',
       uniqueKey = ''https://www.linkedin.com/jobs-guest/jobs/api/seeMoreJobPostings/search?keywords=dev&start=0'',
       userData = SEARCH [] humanUrl, retryCount = 0 \<rparr>"

text \<open>The state of a run with \<open>maxItems = 1\<close> after its one row has been pushed.\<close>

definition fullState :: state where
  "fullState = snd (pushResult config1 job1 (initialState [searchRequest]))"

definition searchRequest2 :: request where
  "searchRequest2 =
     \<lparr> url = ''https://www.linkedin.com/jobs-guest/jobs/api/seeMoreJobPostings/search?keywords=dev&start=25'',
       uniqueKey = ''https://www.linkedin.com/jobs-guest/jobs/api/seeMoreJobPostings/search?keywords=dev&start=25'',
       userData = SEARCH [] humanUrl, retryCount = 0 \<rparr>"

definition configDefault :: config where
  "configDefault = \<lparr> maxItems = 200, scrapeJobDetails = True, scrapeCompany = True,
                      inputUrl = humanUrl \<rparr>"

definition pageA :: page where
  "pageA = emptyPage\<lparr>jobCards := [job1, job2]\<rparr>"

definition pageB :: page where
  "pageB = emptyPage\<lparr>jobCards := [job2]\<rparr>"










text \<open>
  The platform's URL parser on the strings used below. A string that starts with
  \<open>https://www.linkedin.com/\<close>, continues with letters, digits and \<open>-_/\<close> up to its
  first \<open>?\<close> and with letters, digits and \<open>-._~:/?&=%+*\<close> from there is a URL in
  printed form already (no dot segment, no character the parser escapes, no fragment): its
  \<open>href\<close> is the string itself. Every other string is refused here, as the platform
  refuses a string with no scheme.
\<close>

definition plainHref :: platform where
  "plainHref s =
     (let origin = ''https://www.linkedin.com/''; rest = drop (length origin) s
      in if take (length origin) s = origin
            \<and> list_all (\<lambda>ch. isAlnum ch \<or> ch \<in> set ''-_/'')
                  (takeWhile (\<lambda>ch. ch \<noteq> CHR ''?'') rest)
            \<and> list_all (\<lambda>ch. isAlnum ch \<or> ch \<in> set ''-._~:/?&=%+*'')
                  (dropWhile (\<lambda>ch. ch \<noteq> CHR ''?'') rest)
         then Some s else None)"

text \<open>A search URL that names the job type filter twice.\<close>

definition repeatedUrl :: string where
  "repeatedUrl = ''https://www.linkedin.com/jobs/search/?keywords=dev&f_JT=F&f_JT=P''"

text \<open>The least number that \<open>String\<close> prints in exponential notation.\<close>

definition hugeStart :: nat where
  "hugeStart = 10 ^ 21"










section \<open>Rows pushed to the dataset\<close>

lemma js_or_defined: "b \<noteq> JUndefined \<Longrightarrow> JUndefined \<noteq> js_or a b"
  by (cases a) (auto simp: js_or_def)

lemma js_nullish_defined: "b \<noteq> JUndefined \<Longrightarrow> JUndefined \<noteq> js_nullish a b"
  by (auto simp: js_nullish_def)

lemma js_or_noValue: "noValue a \<Longrightarrow> js_or a b = b"
  by (auto simp: js_or_def noValue_def)

lemma js_nullish_noValue: "noValue a \<Longrightarrow> js_nullish a b = b"
  by (auto simp: js_nullish_def noValue_def)

lemma noValue_JNull: "noValue JNull"
  by (simp add: noValue_def)

lemma js_or_not_null: "b \<noteq> JNull \<Longrightarrow> js_or a b \<noteq> JNull"
  by (cases a) (auto simp: js_or_def)

lemma formatPostedAt_noValue: "noValue v \<Longrightarrow> formatPostedAt v = Ok JNull"
  by (auto simp: formatPostedAt_def noValue_def)

lemma outputRecord_names: "map fst (outputRecord c data f) = outputFields"
  by (simp add: outputRecord_def outputFields_def)


lemma outputRecord_defaults:
  assumes "formatPostedAt (field data ''postedAt'') = Ok f"
  shows "\<forall>(k, v)\<in>set (outputRecord c data f).
           v \<noteq> JUndefined
           \<and> (k = ''salaryInfo'' \<or> k = ''benefits'' \<longrightarrow> v \<noteq> JNull)
           \<and> (noValue (field data k) \<and> k \<noteq> ''salary'' \<and> k \<noteq> ''inputUrl'' \<longrightarrow> v = defaultValue k)"
  using assms formatPostedAt_noValue[of "field data ''postedAt''"]
  by (simp add: outputRecord_def defaultValue_def js_or_noValue js_nullish_noValue noValue_JNull
        js_or_defined[symmetric] js_nullish_defined[symmetric] js_or_not_null)

lemma distinct_outputFields: "distinct outputFields"
  by (simp add: outputFields_def)

lemma salaryStr_noValue: "noValue (field data ''salary'') \<Longrightarrow> noValue (field data ''salaryInfo'') \<Longrightarrow> salaryStr data = JStr []"
  by (auto simp: salaryStr_def js_nullish_def noValue_def)

lemma pushResult_cases:
  assumes "pushResult c data st = (out, st')"
  shows "st' = st \<or>
         (out = Returned \<and> totalScraped st < maxItems c \<and>
          (\<exists>f. formatPostedAt (field data ''postedAt'') = Ok f \<and>
               st' = st\<lparr>dataset := dataset st @ [outputRecord c data f],
                          totalScraped := Suc (totalScraped st)\<rparr>))"
  using assms by (auto simp: pushResult_def split: if_splits res.splits)

text \<open>
  C9. Every row \<open>pushResult\<close> appends to the dataset is one flat object that names
  every summary, detail and company field, each exactly once: no value is \<open>undefined\<close>
  (nothing is omitted); a field the job has no value for shows \<open>null\<close>, or the empty
  string for \<open>applyUrl\<close> and \<open>salary\<close>; the array fields \<open>salaryInfo\<close> and
  \<open>benefits\<close> are never \<open>null\<close> and show the empty array when the job has none.
  (\<open>salary\<close> is first looked for in \<open>salaryInfo\<close>, and \<open>inputUrl\<close> in the run's
  own input URL, before they fall back to their defaults.)
\<close>

theorem pushResult_row_explicit:
  assumes "pushResult c data st = (out, st')" and "dataset st' \<noteq> dataset st"
  shows "\<exists>row. dataset st' = dataset st @ [row]
           \<and> map fst row = outputFields \<and> distinct (map fst row)
           \<and> (\<forall>(k, v)\<in>set row.
                  v \<noteq> JUndefined
                  \<and> (k = ''salaryInfo'' \<or> k = ''benefits'' \<longrightarrow> v \<noteq> JNull)
                  \<and> (noValue (field data k) \<and> k \<noteq> ''salary'' \<and> k \<noteq> ''inputUrl''
                       \<longrightarrow> v = defaultValue k))
           \<and> (noValue (field data ''salary'') \<and> noValue (field data ''salaryInfo'')
                  \<longrightarrow> (''salary'', JStr []) \<in> set row)
           \<and> (noValue (field data ''inputUrl'') \<and> inputUrl c = []
                  \<longrightarrow> (''inputUrl'', JNull) \<in> set row)"
proof -
  from pushResult_cases [OF assms(1)] assms(2)
  obtain f where f: "formatPostedAt (field data ''postedAt'') = Ok f"
    and st': "st' = st\<lparr>dataset := dataset st @ [outputRecord c data f],
                          totalScraped := Suc (totalScraped st)\<rparr>"
    by auto
  let ?row = "outputRecord c data f"
  have 1: "dataset st' = dataset st @ [?row]" using st' by simp
  have 2: "map fst ?row = outputFields" by (rule outputRecord_names)
  have 3: "distinct (map fst ?row)" using 2 distinct_outputFields by simp
  note 4 = outputRecord_defaults [OF f, of c]
  have 5: "noValue (field data ''salary'') \<and> noValue (field data ''salaryInfo'')
             \<longrightarrow> (''salary'', JStr []) \<in> set ?row"
    by (simp add: outputRecord_def salaryStr_noValue js_or_def)
  have 6: "noValue (field data ''inputUrl'') \<and> inputUrl c = []
             \<longrightarrow> (''inputUrl'', JNull) \<in> set ?row"
  proof (intro impI, elim conjE)
    assume "noValue (field data ''inputUrl'')" and "inputUrl c = []"
    then have "js_or (field data ''inputUrl'') (JStr (inputUrl c)) = JStr []"
      by (simp add: js_or_noValue)
    then have "js_or (js_or (field data ''inputUrl'') (JStr (inputUrl c))) JNull = JNull"
      by (simp add: js_or_def)
    moreover have "(''inputUrl'', js_or (js_or (field data ''inputUrl'') (JStr (inputUrl c))) JNull)
        \<in> set ?row"
      by (simp add: outputRecord_def)
    ultimately show "(''inputUrl'', JNull) \<in> set ?row" by simp
  qed
  from 1 2 3 4 5 6 show ?thesis by blast
qed

text \<open>A job with no field at all is pushed as the row of all defaults.\<close>

theorem pushResult_row_explicit_witness:
  "dataset (snd (pushResult config0 Map.empty (initialState []))) \<noteq> dataset (initialState [])
   \<and> (\<exists>row. dataset (snd (pushResult config0 Map.empty (initialState []))) = [row]
      \<and> map fst row = outputFields
      \<and> (\<forall>(k, v)\<in>set row. v \<noteq> JUndefined \<and> (k \<noteq> ''salary'' \<and> k \<noteq> ''inputUrl'' \<longrightarrow> v = defaultValue k)))"
proof -
  let ?st' = "snd (pushResult config0 Map.empty (initialState []))"
  have eq: "pushResult config0 Map.empty (initialState [])
              = (fst (pushResult config0 Map.empty (initialState [])), ?st')"
    by simp
  have nv: "\<And>k. noValue (field Map.empty k)" by (simp add: field_def noValue_def)
  have neq: "dataset ?st' \<noteq> dataset (initialState [])"
    by (simp add: pushResult_def config0_def initialState_def formatPostedAt_def field_def)
  have e: "dataset (initialState []) = []" by (simp add: initialState_def)
  from pushResult_row_explicit [OF eq neq]
  obtain row where r1: "dataset ?st' = dataset (initialState []) @ [row]"
    and r2: "map fst row = outputFields"
    and r3: "\<forall>(k, v)\<in>set row. v \<noteq> JUndefined
          \<and> (k = ''salaryInfo'' \<or> k = ''benefits'' \<longrightarrow> v \<noteq> JNull)
          \<and> (noValue (field Map.empty k) \<and> k \<noteq> ''salary'' \<and> k \<noteq> ''inputUrl''
                \<longrightarrow> v = defaultValue k)"
    by (elim exE conjE)
  have r4: "\<forall>(k, v)\<in>set row. v \<noteq> JUndefined
          \<and> (k \<noteq> ''salary'' \<and> k \<noteq> ''inputUrl'' \<longrightarrow> v = defaultValue k)"
  proof (clarify, intro conjI impI)
    fix k v assume kv: "(k, v) \<in> set row"
    note * = bspec [OF r3 kv, simplified prod.case]
    from * show "v \<noteq> JUndefined" by (rule conjunct1)
    assume "k \<noteq> ''salary'' \<and> k \<noteq> ''inputUrl''"
    with * nv [of k] show "v = defaultValue k" by simp
  qed
  have r5: "dataset ?st' = [row]" using r1 e by simp
  from neq r5 r2 r4 show ?thesis by (intro conjI exI [of _ row])
qed

section \<open>What a push does when the budget allows it\<close>

lemma pushed_Nil: "pushed c [] st = st"
  by (simp add: pushed_def)

lemma pushResult_pushes:
  assumes "totalScraped st < maxItems c" and "pushable data"
  shows "pushResult c data st = (Returned, pushed c [data] st)"
  using assms by (auto simp: pushResult_def pushable_def rowOf_def pushed_def split: res.splits)

lemma pushed_pushed: "pushed c js (pushed c [j] st) = pushed c (j # js) st"
  by (simp add: pushed_def)

lemma pushed_fields:
  "totalScraped (pushed c js st) = totalScraped st + length js"
  "dataset (pushed c js st) = dataset st @ map (rowOf c) js"
  "requestQueue (pushed c js st) = requestQueue st"
  "companyCache (pushed c js st) = companyCache st"
  "pendingCompanies (pushed c js st) = pendingCompanies st"
  "scrapedIds (pushed c js st) = scrapedIds st"
  "pauses (pushed c js st) = pauses st"
  by (simp_all add: pushed_def)

lemma pushAll_pushes:
  assumes "\<forall>job\<in>set jobs. pushable job"
  shows "pushAll c jobs st = (Returned, pushed c (take (maxItems c - totalScraped st) jobs) st)"
  using assms
proof (induction jobs arbitrary: st)
  case Nil
  show ?case by (simp add: pushed_Nil)
next
  case (Cons job jobs)
  show ?case
  proof (cases "totalScraped st < maxItems c")
    case True
    then obtain k where k: "maxItems c - totalScraped st = Suc k" by (cases "maxItems c - totalScraped st") auto
    have p: "pushResult c job st = (Returned, pushed c [job] st)"
      using True Cons.prems by (intro pushResult_pushes) simp_all
    have "maxItems c - totalScraped (pushed c [job] st) = k"
      using k by (simp add: pushed_fields)
    with Cons.IH [of "pushed c [job] st"] Cons.prems p k show ?thesis
      by (simp add: pushed_pushed)
  next
    case False
    then have cap: "maxItems c \<le> totalScraped st" by simp
    then have "pushResult c job st = (Returned, st)" by (simp add: pushResult_def)
    with Cons.IH [of st] Cons.prems cap show ?thesis by (simp add: pushed_Nil)
  qed
qed

lemma addRequest_cases:
  assumes "addRequest r st = (present, st1)"
  shows "(present \<and> st1 = st \<and> uniqueKey r \<in> uniqueKey ` set (requestQueue st)) \<or>
         (\<not> present \<and> st1 = st\<lparr>requestQueue := requestQueue st @ [r]\<rparr>
            \<and> uniqueKey r \<notin> uniqueKey ` set (requestQueue st))"
  using assms by (auto simp: addRequest_def split: if_splits)

section \<open>The concrete inputs evaluated\<close>

lemma job_ids:
  "field job1 ''id'' = JStr ''4000000001''" "field job2 ''id'' = JStr ''4000000002''"
  "field (job1(''inputUrl'' \<mapsto> v)) ''postedAt'' = JStr ''2025-01-02''"
  "field (job2(''inputUrl'' \<mapsto> v)) ''postedAt'' = JNull"
  "field job1 ''postedAt'' = JStr ''2025-01-02''"
  "field job2 ''postedAt'' = JNull"
  by (simp_all add: field_def job1_def job2_def)

lemma pushable_jobs:
  "pushable job1" "pushable job2"
  "pushable (job1(''inputUrl'' \<mapsto> v))" "pushable (job2(''inputUrl'' \<mapsto> v))"
  by (simp_all add: pushable_def job_ids formatPostedAt_def)









lemma fullState_eval:
  "totalScraped fullState = 1" "length (dataset fullState) = 1"
  "requestQueue fullState = [searchRequest]"
  by (simp_all add: fullState_def pushResult_def config1_def initialState_def
        formatPostedAt_def field_def job1_def)

section \<open>The login-wall classifier looks at content first\<close>

text \<open>
  C5. The claim says that a page with recognisable job or company content is never
  classified as a login wall. The status check comes before the content check: a 401 or
  403 answer is a login wall whatever the markup holds.
\<close>

theorem isLoginWall_content_403_counterexample:
  "hasContent wallPage \<and> str_includes (html wallPage) ''authwall''
   \<and> isLoginWall wallPage (Some 403)"
  by (simp add: hasContent_def wallPage_def isLoginWall_def)

text \<open>
  C5, as amended. For every status other than 401 and 403, a page with recognisable job or
  company content (description, job criteria or company-info markup) is not a login wall,
  whatever its markup contains besides: the content markers are checked before the
  auth-wall markers.
\<close>

theorem isLoginWall_content_first:
  assumes "statusCode \<noteq> Some 401" and "statusCode \<noteq> Some 403" and "hasContent p"
  shows "\<not> isLoginWall p statusCode"
  using assms by (auto simp: isLoginWall_def hasContent_def Let_def)

theorem isLoginWall_content_first_witness:
  "hasContent wallPage \<and> str_includes (html wallPage) ''authwall''
   \<and> str_includes (html wallPage) ''/login'' \<and> \<not> isLoginWall wallPage (Some 200)"
proof -
  have c: "hasContent wallPage" by (simp add: hasContent_def wallPage_def)
  have "\<not> isLoginWall wallPage (Some 200)"
    using isLoginWall_content_first [of "Some 200" wallPage] c by simp
  moreover have "str_includes (html wallPage) ''authwall''
      \<and> str_includes (html wallPage) ''/login''"
    by (simp add: wallPage_def)
  ultimately show ?thesis using c by simp
qed

section \<open>The queue and the id set along a run\<close>

lemma onlyPushes_refl: "onlyPushes st st"
  unfolding onlyPushes_def by (rule exI [of _ "[]"], rule exI [of _ 0]) simp

lemma onlyPushes_trans: "onlyPushes st st1 \<Longrightarrow> onlyPushes st1 st2 \<Longrightarrow> onlyPushes st st2"
  unfolding onlyPushes_def
proof (elim exE)
  fix r1 n1 r2 n2
  assume 1: "st1 = st\<lparr>dataset := dataset st @ r1, totalScraped := totalScraped st + n1\<rparr>"
    and 2: "st2 = st1\<lparr>dataset := dataset st1 @ r2, totalScraped := totalScraped st1 + n2\<rparr>"
  have "st2 = st\<lparr>dataset := dataset st @ (r1 @ r2), totalScraped := totalScraped st + (n1 + n2)\<rparr>"
    using 1 2 by simp
  then show "\<exists>rows n. st2 = st\<lparr>dataset := dataset st @ rows, totalScraped := totalScraped st + n\<rparr>"
    by blast
qed

lemma onlyPushes_frame:
  assumes "onlyPushes st st'"
  shows "requestQueue st' = requestQueue st" "scrapedIds st' = scrapedIds st"
    "companyCache st' = companyCache st" "pendingCompanies st' = pendingCompanies st"
    "pauses st' = pauses st" "sessionsRetired st' = sessionsRetired st"
  using assms by (auto simp: onlyPushes_def)

lemma onlyPushes_pushResult: "onlyPushes st (snd (pushResult c data st))"
proof -
  obtain out st' where p: "pushResult c data st = (out, st')" by (cases "pushResult c data st")
  from pushResult_cases [OF p] have "onlyPushes st st'"
  proof (elim disjE conjE exE)
    assume "st' = st" then show ?thesis by (simp add: onlyPushes_refl)
  next
    fix f
    assume "st' = st\<lparr>dataset := dataset st @ [outputRecord c data f],
                         totalScraped := Suc (totalScraped st)\<rparr>"
    then have "st' = st\<lparr>dataset := dataset st @ [outputRecord c data f],
                         totalScraped := totalScraped st + 1\<rparr>" by simp
    then show ?thesis unfolding onlyPushes_def by blast
  qed
  with p show ?thesis by simp
qed

lemma onlyPushes_pushAll: "onlyPushes st (snd (pushAll c jobs st))"
proof (induction jobs arbitrary: st)
  case Nil
  show ?case by (simp add: onlyPushes_refl)
next
  case (Cons job jobs)
  obtain out st1 where p: "pushResult c job st = (out, st1)" by (cases "pushResult c job st")
  have b: "onlyPushes st st1" using onlyPushes_pushResult [of st c job] p by simp
  show ?case
  proof (cases out)
    case Returned
    with p Cons.IH [of st1] b show ?thesis by (auto intro: onlyPushes_trans)
  next
    case Thrown
    with p b show ?thesis by simp
  qed
qed

lemma length_filter_le_1:
  assumes "distinct (map f xs)" and "\<forall>x\<in>set xs. P x \<longrightarrow> f x = k"
  shows "length (filter P xs) \<le> 1"
  using assms
proof (induction xs)
  case Nil
  show ?case by simp
next
  case (Cons x xs)
  show ?case
  proof (cases "P x")
    case True
    with Cons.prems have "f x = k" and "k \<notin> f ` set xs" by auto
    with Cons.prems have "\<forall>y\<in>set xs. \<not> P y" by (metis image_eqI list.set_intros(2))
    then have "filter P xs = []" by (simp add: filter_empty_conv)
    with True show ?thesis by simp
  next
    case False
    with Cons show ?thesis by simp
  qed
qed

lemma queueOk_addRequest:
  assumes "queueOk st" and "keyed r"
  shows "queueOk (snd (addRequest r st))"
  using assms by (auto simp: queueOk_def addRequest_def)


lemma keyed_detailRequest: "keyed (detailRequest jcard (jcard(''inputUrl'' \<mapsto> v)))"
  by (simp add: keyed_def detailRequest_def field_def)

lemma keyed_companyRequest: "keyed (companyRequest slug merged)"
  by (simp add: keyed_def companyRequest_def)


lemma orderly_refl: "orderly st st"
  by (simp add: orderly_def)

lemma orderly_trans: "orderly st st1 \<Longrightarrow> orderly st1 st2 \<Longrightarrow> orderly st st2"
  by (auto simp: orderly_def)

lemma orderly_quiet:
  "requestQueue st' = requestQueue st \<Longrightarrow> scrapedIds st' = scrapedIds st \<Longrightarrow>
     prefix (dataset st) (dataset st') \<Longrightarrow> orderly st st'"
  by (simp add: orderly_def queueOk_def)

lemma onlyPushes_dataset: "onlyPushes st st' \<Longrightarrow> prefix (dataset st) (dataset st')"
  by (auto simp: onlyPushes_def)

lemma orderly_onlyPushes: "onlyPushes st st' \<Longrightarrow> orderly st st'"
  by (simp add: orderly_quiet onlyPushes_frame onlyPushes_dataset)

lemma orderly_pushResult: "orderly st (snd (pushResult c data st))"
  by (rule orderly_onlyPushes) (rule onlyPushes_pushResult)

lemma orderly_pushAll: "orderly st (snd (pushAll c jobs st))"
  by (rule orderly_onlyPushes) (rule onlyPushes_pushAll)

lemma orderly_sleep: "orderly st (sleep lo hi st)"
  by (simp add: orderly_quiet sleep_def)

lemma orderly_thenSleep: "orderly st (snd r) \<Longrightarrow> orderly st (snd (thenSleep lo hi r))"
  by (cases r) (auto simp: thenSleep_def split: outcome.splits intro: orderly_trans orderly_sleep)

lemma orderly_addRequest: "keyed r \<Longrightarrow> orderly st (snd (addRequest r st))"
  using queueOk_addRequest [of st r] by (auto simp: orderly_def addRequest_def)

lemma orderly_mark: "orderly st (st\<lparr>scrapedIds := insert x (scrapedIds st)\<rparr>)"
  by (auto simp: orderly_def queueOk_def)

lemma orderly_searchLoop: "orderly st (snd (searchLoop c u cards st))"
proof (induction cards arbitrary: st)
  case Nil
  show ?case by (simp add: orderly_refl)
next
  case (Cons jcard cards)
  let ?st1 = "st\<lparr>scrapedIds := insert (field jcard ''id'') (scrapedIds st)\<rparr>"
  let ?cwi = "jcard(''inputUrl'' \<mapsto> JStr u)"
  let ?st2 = "snd (addRequest (detailRequest jcard ?cwi) ?st1)"
  have b1: "orderly st ?st1" by (rule orderly_mark)
  have "orderly ?st1 ?st2" by (intro orderly_addRequest keyed_detailRequest)
  with b1 have "orderly st ?st2" by (rule orderly_trans)
  from this Cons.IH [of ?st2] have d: "orderly st (snd (searchLoop c u cards ?st2))"
    by (rule orderly_trans)
  obtain out st3 where p: "pushResult c ?cwi ?st1 = (out, st3)"
    by (cases "pushResult c ?cwi ?st1")
  have "orderly ?st1 st3" using orderly_pushResult [of ?st1 c ?cwi] p by simp
  with b1 have b3: "orderly st st3" by (rule orderly_trans)
  from b3 Cons.IH [of st3] have e: "orderly st (snd (searchLoop c u cards st3))"
    by (rule orderly_trans)
  show ?case
    using Cons.IH [of st] d p b3 e
    by (cases out) (simp_all add: Let_def orderly_refl)
qed

lemma orderly_handleSearch: "orderly st (snd (handleSearch c u statusCode p st))"
proof -
  let ?u = "if u \<noteq> [] then u else inputUrl c"
  obtain out st1 where l: "searchLoop c ?u (jobCards p) st = (out, st1)"
    by (cases "searchLoop c ?u (jobCards p) st")
  have a: "orderly st st1" using orderly_searchLoop [of st c ?u "jobCards p"] l by simp
  then have "orderly st (sleep 300 800 st1)"
    by (rule orderly_trans) (rule orderly_sleep)
  with l a show ?thesis
    by (cases out) (auto simp: handleSearch_def Let_def orderly_refl orderly_sleep)
qed

lemma orderly_park:
  "orderly st (sleep lo hi (st\<lparr>pendingCompanies := pc\<rparr>))"
  "keyed r \<Longrightarrow> uniqueKey r \<notin> uniqueKey ` set (requestQueue st) \<Longrightarrow>
     orderly st (sleep lo hi (st\<lparr>requestQueue := requestQueue st @ [r], pendingCompanies := pc\<rparr>))"
  by (auto simp: orderly_def sleep_def queueOk_def)

lemma orderly_handleJobDetail:
  "orderly st (snd (handleJobDetail c cardData retries statusCode p st))"
proof -
  have push: "\<And>d. orderly st (snd (thenSleep 200 600 (pushResult c d st)))"
    by (intro orderly_thenSleep orderly_pushResult)
  show ?thesis
    by (auto simp: handleJobDetail_def Let_def orderly_refl orderly_sleep
          orderly_pushResult push orderly_park keyed_companyRequest
        split: res.splits option.splits prod.splits bool.splits
        dest!: addRequest_cases)
qed

lemma quiet_pushPending:
  "requestQueue (snd (pushPending c slug jobs companyData st)) = requestQueue st"
  "scrapedIds (snd (pushPending c slug jobs companyData st)) = scrapedIds st"
  "prefix (dataset st) (dataset (snd (pushPending c slug jobs companyData st)))"
proof -
  let ?m = "map (\<lambda>job. job ++ companyData)"
  obtain o1 st1 where 1: "pushAll c (?m jobs) st = (o1, st1)" by (cases "pushAll c (?m jobs) st")
  obtain o2 st2 where 2: "pushAll c (?m (overflowOf st1 slug)) st1 = (o2, st2)"
    by (cases "pushAll c (?m (overflowOf st1 slug)) st1")
  have b1: "onlyPushes st st1" using onlyPushes_pushAll [of st c "?m jobs"] 1 by simp
  have "onlyPushes st1 st2"
    using onlyPushes_pushAll [of st1 c "?m (overflowOf st1 slug)"] 2 by simp
  with b1 have b2: "onlyPushes st st2" by (rule onlyPushes_trans)
  show "requestQueue (snd (pushPending c slug jobs companyData st)) = requestQueue st"
    using 1 2 onlyPushes_frame(1) [OF b1] onlyPushes_frame(1) [OF b2]
    by (cases o1; cases o2) (simp_all add: pushPending_def sleep_def)
  show "scrapedIds (snd (pushPending c slug jobs companyData st)) = scrapedIds st"
    using 1 2 onlyPushes_frame(2) [OF b1] onlyPushes_frame(2) [OF b2]
    by (cases o1; cases o2) (simp_all add: pushPending_def sleep_def)
  show "prefix (dataset st) (dataset (snd (pushPending c slug jobs companyData st)))"
    using 1 2 onlyPushes_dataset [OF b1] onlyPushes_dataset [OF b2]
    by (cases o1; cases o2) (simp_all add: pushPending_def sleep_def)
qed

lemma prefix_pushPending_cache:
  "prefix (dataset st)
     (dataset (snd (pushPending c slug jobs companyData (st\<lparr>companyCache := cc\<rparr>))))"
  using quiet_pushPending(3) [of "st\<lparr>companyCache := cc\<rparr>" c slug jobs companyData] by simp

lemma orderly_handleCompany:
  "orderly st (snd (handleCompany c slug jobs retries statusCode p st))"
  by (rule orderly_quiet)
     (simp_all add: handleCompany_def quiet_pushPending prefix_pushPending_cache
        sleep_def retire_def)

lemma orderly_failedRequestHandler:
  "orderly st (snd (failedRequestHandler c request st))"
proof (cases "userData request")
  case (SEARCH l u)
  then show ?thesis by (simp add: failedRequestHandler_def orderly_refl)
next
  case (JOB_DETAIL cardData)
  then show ?thesis by (simp add: failedRequestHandler_def orderly_pushResult)
next
  case (COMPANY slug jobs)
  let ?st0 = "st\<lparr>companyCache := (companyCache st)(slug \<mapsto> Map.empty)\<rparr>"
  obtain o1 st1 where 1: "pushAll c (jobs @ overflowOf st slug) ?st0 = (o1, st1)"
    by (cases "pushAll c (jobs @ overflowOf st slug) ?st0")
  have "onlyPushes ?st0 st1"
    using onlyPushes_pushAll [of ?st0 c "jobs @ overflowOf st slug"] 1 by simp
  from onlyPushes_frame(1,2) [OF this] onlyPushes_dataset [OF this]
  have "requestQueue st1 = requestQueue st" "scrapedIds st1 = scrapedIds st"
    "prefix (dataset st) (dataset st1)" by simp_all
  with COMPANY 1 show ?thesis
    by (cases o1) (simp_all add: failedRequestHandler_def orderly_quiet)
qed

lemma orderly_step: "orderly st (snd (step c e st))"
proof (cases e)
  case (Fetched request statusCode p)
  then show ?thesis
    by (cases "userData request")
       (simp_all add: requestHandler_def orderly_handleSearch orderly_handleJobDetail
          orderly_handleCompany)
next
  case (GaveUp request)
  then show ?thesis by (simp add: orderly_failedRequestHandler)
qed

lemma orderly_run: "orderly st (run c es st)"
proof (induction es arbitrary: st)
  case Nil
  show ?case by (simp add: orderly_refl)
next
  case (Cons e es)
  from orderly_step [of st c e] Cons.IH [of "snd (step c e st)"]
  show ?case by (auto intro: orderly_trans)
qed


section \<open>A rate-limited search page\<close>

lemma handleSearch_429:
  "handleSearch c u (Some 429) p st =
     (Returned, if maxItems c \<le> totalScraped st then st else sleep 5000 5000 st)"
  by (simp add: handleSearch_def)

text \<open>
  C6. The claim says that a search result with status 429 makes the handler pause and then
  discard the result. The budget check comes first: once \<open>maxItems\<close> rows have been
  pushed the handler returns at once, and no pause is taken.
\<close>

theorem handleSearch_rate_limited_counterexample:
  "handleSearch config1 [] (Some 429) (emptyPage\<lparr>jobCards := [job2]\<rparr>) fullState
     = (Returned, fullState)
   \<and> pauses fullState = []"
  by (simp add: handleSearch_def fullState_eval config1_def)
     (simp add: fullState_def pushResult_def config1_def initialState_def
        formatPostedAt_def field_def job1_def)

text \<open>
  C6, as amended. While the budget is not exhausted, a search result with status 429 makes
  the handler pause for five seconds and return: the handler does not throw, so the crawler
  does not retry the offset, and apart from the pause the state is the one before, so no
  job request was added, no id marked and nothing pushed, and the pages of other offsets
  are handled as if this one had not come.
\<close>

theorem handleSearch_rate_limited:
  assumes "totalScraped st < maxItems c"
  shows "handleSearch c u (Some 429) p st = (Returned, st\<lparr>pauses := pauses st @ [Pause 5000 5000]\<rparr>)"
  using assms by (simp add: handleSearch_def sleep_def)

theorem handleSearch_rate_limited_witness:
  "totalScraped (initialState [searchRequest]) < maxItems config0
   \<and> handleSearch config0 [] (Some 429) (emptyPage\<lparr>jobCards := [job2]\<rparr>)
         (initialState [searchRequest])
       = (Returned, (initialState [searchRequest])\<lparr>pauses := [Pause 5000 5000]\<rparr>)"
proof -
  have b: "totalScraped (initialState [searchRequest]) < maxItems config0"
    by (simp add: initialState_def config0_def)
  have "pauses (initialState [searchRequest]) = []" by (simp add: initialState_def)
  with handleSearch_rate_limited [OF b, of "[]" "emptyPage\<lparr>jobCards := [job2]\<rparr>"] b
  show ?thesis by simp
qed

section \<open>A job posting that cannot be read\<close>

text \<open>
  C7. The claim says that every job-detail result with a non-success status has its card
  pushed. The budget check comes first: with the budget exhausted, a 404 for a job returns
  at once and the card is not pushed (the dataset holds the one earlier row).
\<close>

theorem handleJobDetail_degrades_counterexample:
  "\<not> isLoginWall emptyPage (Some 404)
   \<and> handleJobDetail config1 job2 0 (Some 404) emptyPage fullState = (Returned, fullState)
   \<and> dataset fullState = [rowOf config1 job1]"
  by (simp add: handleJobDetail_def fullState_eval config1_def isLoginWall_def emptyPage_def)
     (simp add: fullState_def pushResult_def config1_def initialState_def rowOf_def
        formatPostedAt_def field_def job1_def)

text \<open>
  C7, as amended. While the budget is not exhausted: on status 429 or 999 the handler
  pauses and throws, which makes the crawler retry the request, and the state is otherwise
  unchanged (nothing is pushed); on any other status, a result that is a login wall or
  whose status is not 200 has the row of its card data pushed (the card's \<open>postedAt\<close>
  being a string or falsy), the handler returns, and nothing else changes: no request is
  added and the job is not parked.
\<close>

theorem handleJobDetail_degrades:
  assumes "totalScraped st < maxItems c"
  shows "(statusCode = Some 429 \<or> statusCode = Some 999 \<longrightarrow>
            handleJobDetail c cardData retries statusCode p st
              = (Thrown, st\<lparr>pauses := pauses st
                                 @ [Pause (retries * 3000 + 2000) (retries * 3000 + 5000)]\<rparr>))
       \<and> (statusCode \<noteq> Some 429 \<and> statusCode \<noteq> Some 999
            \<and> (isLoginWall p statusCode \<or> statusCode \<noteq> Some 200) \<and> pushable cardData \<longrightarrow>
            handleJobDetail c cardData retries statusCode p st
              = (Returned, st\<lparr>dataset := dataset st @ [rowOf c cardData],
                               totalScraped := totalScraped st + 1\<rparr>))"
  using assms pushResult_pushes [of st c cardData]
  by (auto simp: handleJobDetail_def sleep_def pushed_def)

theorem handleJobDetail_degrades_witness:
  "totalScraped (initialState [searchRequest]) < maxItems config0
   \<and> pushable job2 \<and> \<not> isLoginWall emptyPage (Some 404)
   \<and> handleJobDetail config0 job2 0 (Some 429) emptyPage (initialState [searchRequest])
       = (Thrown, (initialState [searchRequest])\<lparr>pauses := [Pause 2000 5000]\<rparr>)
   \<and> handleJobDetail config0 job2 0 (Some 404) emptyPage (initialState [searchRequest])
       = (Returned, (initialState [searchRequest])\<lparr>dataset := [rowOf config0 job2],
                                                      totalScraped := 1\<rparr>)"
proof -
  let ?st = "initialState [searchRequest]"
  have b: "totalScraped ?st < maxItems config0"
    by (simp add: initialState_def config0_def)
  have p: "pushable job2"
    by (simp add: pushable_def job2_def field_def formatPostedAt_def)
  have w: "\<not> isLoginWall emptyPage (Some 404)"
    by (simp add: isLoginWall_def emptyPage_def)
  have i: "pauses ?st = []" "dataset ?st = []" "totalScraped ?st = 0"
    by (simp_all add: initialState_def)
  from handleJobDetail_degrades [OF b, of "Some 429" job2 0 emptyPage]
  have 1: "handleJobDetail config0 job2 0 (Some 429) emptyPage ?st
       = (Thrown, ?st\<lparr>pauses := [Pause 2000 5000]\<rparr>)"
    using i by simp
  from handleJobDetail_degrades [OF b, of "Some 404" job2 0 emptyPage] p w
  have 2: "handleJobDetail config0 job2 0 (Some 404) emptyPage ?st
       = (Returned, ?st\<lparr>dataset := [rowOf config0 job2], totalScraped := 1\<rparr>)"
    using i by simp
  from b p w 1 2 show ?thesis by simp
qed

section \<open>Jobs seen twice\<close>

lemma searchLoop_capped:
  "maxItems c \<le> totalScraped st \<Longrightarrow> searchLoop c u cards st = (Returned, st)"
  by (cases cards) simp_all

lemma searchLoop_skip:
  assumes "field jcard ''id'' \<in> scrapedIds st"
  shows "searchLoop c u (jcard # cards) st = searchLoop c u cards st"
  using assms by (simp add: searchLoop_capped)

lemma searchLoop_first:
  assumes new: "field jcard ''id'' \<notin> scrapedIds st" and budget: "totalScraped st < maxItems c"
  shows "field jcard ''id'' \<in> scrapedIds (snd (searchLoop c u (jcard # cards) st))"
    and "scrapeJobDetails c \<Longrightarrow>
           ''detail-'' @ js_toString (field jcard ''id'')
             \<in> uniqueKey ` set (requestQueue (snd (searchLoop c u (jcard # cards) st)))"
    and "\<not> scrapeJobDetails c \<Longrightarrow> pushable (jcard(''inputUrl'' \<mapsto> JStr u)) \<Longrightarrow>
           rowOf c (jcard(''inputUrl'' \<mapsto> JStr u))
             \<in> set (dataset (snd (searchLoop c u (jcard # cards) st)))"
proof -
  let ?st1 = "st\<lparr>scrapedIds := insert (field jcard ''id'') (scrapedIds st)\<rparr>"
  let ?cwi = "jcard(''inputUrl'' \<mapsto> JStr u)"
  let ?st2 = "snd (addRequest (detailRequest jcard ?cwi) ?st1)"
  let ?st3 = "snd (pushResult c ?cwi ?st1)"
  have m2: "field jcard ''id'' \<in> scrapedIds ?st2" by (simp add: addRequest_def)
  have m3: "field jcard ''id'' \<in> scrapedIds ?st3"
    using onlyPushes_frame(2) [OF onlyPushes_pushResult [of ?st1 c ?cwi]] by simp
  show "field jcard ''id'' \<in> scrapedIds (snd (searchLoop c u (jcard # cards) st))"
  proof (cases "scrapeJobDetails c")
    case True
    with new budget orderly_searchLoop [of ?st2 c u cards] m2 show ?thesis
      by (auto simp: Let_def orderly_def)
  next
    case False
    obtain out st3 where p: "pushResult c ?cwi ?st1 = (out, st3)"
      by (cases "pushResult c ?cwi ?st1")
    with m3 have "field jcard ''id'' \<in> scrapedIds st3" by simp
    with orderly_searchLoop [of st3 c u cards]
    have "field jcard ''id'' \<in> scrapedIds (snd (searchLoop c u cards st3))"
      by (auto simp: orderly_def)
    with new budget False p \<open>field jcard ''id'' \<in> scrapedIds st3\<close> show ?thesis
      by (cases out) (simp_all add: Let_def)
  qed
  show "''detail-'' @ js_toString (field jcard ''id'')
          \<in> uniqueKey ` set (requestQueue (snd (searchLoop c u (jcard # cards) st)))"
    if d: "scrapeJobDetails c"
  proof -
    have "uniqueKey (detailRequest jcard ?cwi) \<in> uniqueKey ` set (requestQueue ?st2)"
      by (auto simp: addRequest_def)
    moreover have "set (requestQueue ?st2) \<subseteq> set (requestQueue (snd (searchLoop c u cards ?st2)))"
      using orderly_searchLoop [of ?st2 c u cards] by (auto simp: orderly_def dest: set_mono_prefix)
    ultimately have "uniqueKey (detailRequest jcard ?cwi)
        \<in> uniqueKey ` set (requestQueue (snd (searchLoop c u cards ?st2)))" by blast
    with new budget d show ?thesis by (simp add: Let_def detailRequest_def)
  qed
  show "rowOf c ?cwi \<in> set (dataset (snd (searchLoop c u (jcard # cards) st)))"
    if d: "\<not> scrapeJobDetails c" and pu: "pushable ?cwi"
  proof -
    have b1: "totalScraped ?st1 < maxItems c" using budget by simp
    note p = pushResult_pushes [OF b1 pu]
    have "rowOf c ?cwi \<in> set (dataset (pushed c [?cwi] ?st1))" by (simp add: pushed_fields)
    moreover have "set (dataset (pushed c [?cwi] ?st1))
        \<subseteq> set (dataset (snd (searchLoop c u cards (pushed c [?cwi] ?st1))))"
      using orderly_searchLoop [of "pushed c [?cwi] ?st1" c u cards]
      by (auto simp: orderly_def dest: set_mono_prefix)
    ultimately have "rowOf c ?cwi
        \<in> set (dataset (snd (searchLoop c u cards (pushed c [?cwi] ?st1))))" by blast
    with new budget d p show ?thesis by (simp add: Let_def)
  qed
qed

lemma detail_requests_unique:
  assumes "queueOk st"
  shows "length (filter (isDetailFor jid) (requestQueue st)) \<le> 1"
proof (rule length_filter_le_1 [where f = uniqueKey and k = "''detail-'' @ js_toString jid"])
  show "distinct (map uniqueKey (requestQueue st))" using assms by (simp add: queueOk_def)
  show "\<forall>r\<in>set (requestQueue st). isDetailFor jid r \<longrightarrow> uniqueKey r = ''detail-'' @ js_toString jid"
    using assms by (auto simp: queueOk_def keyed_def isDetailFor_def split: userData.splits)
qed

lemma queueOk_seeds: "queueOk (initialState [searchRequest, searchRequest2])"
  by (simp add: queueOk_def initialState_def keyed_def searchRequest_def searchRequest2_def)

text \<open>
  C3. The claim says that for two search results holding a card with the same job id the
  dispatch-or-push path is taken exactly once. With \<open>maxItems = 1\<close>, a first page with
  the cards of two jobs pushes the first job and stops at the second, and a second page
  with the second job is discarded on arrival: the second job is on both pages and the
  path is never taken for it; it is not marked, has no row and no request.
\<close>

theorem dedup_exactly_once_counterexample:
  "jobCards pageA = [job1, job2] \<and> jobCards pageB = [job2]
   \<and> field job2 ''id''
        \<notin> scrapedIds (run config1 [Fetched searchRequest (Some 200) pageA,
                                    Fetched searchRequest2 (Some 200) pageB]
                         (initialState [searchRequest, searchRequest2]))
   \<and> dataset (run config1 [Fetched searchRequest (Some 200) pageA,
                           Fetched searchRequest2 (Some 200) pageB]
                  (initialState [searchRequest, searchRequest2]))
        = [rowOf config1 (job1(''inputUrl'' \<mapsto> JStr humanUrl))]
   \<and> requestQueue (run config1 [Fetched searchRequest (Some 200) pageA,
                                Fetched searchRequest2 (Some 200) pageB]
                       (initialState [searchRequest, searchRequest2]))
        = [searchRequest, searchRequest2]"
proof -
  let ?st0 = "initialState [searchRequest, searchRequest2]"
  let ?j = "job1(''inputUrl'' \<mapsto> JStr humanUrl)"
  let ?st1 = "?st0\<lparr>scrapedIds := {JStr ''4000000001''}\<rparr>"
  have c: "maxItems config1 = 1" "\<not> scrapeJobDetails config1" by (simp_all add: config1_def)
  have u: "humanUrl \<noteq> []" by (simp add: humanUrl_def)
  have q: "userData searchRequest = SEARCH [] humanUrl"
    "userData searchRequest2 = SEARCH [] humanUrl"
    by (simp_all add: searchRequest_def searchRequest2_def)
  have i: "totalScraped ?st0 = 0" "scrapedIds ?st0 = {}" "dataset ?st0 = []"
    "requestQueue ?st0 = [searchRequest, searchRequest2]"
    by (simp_all add: initialState_def)
  have p: "pushResult config1 ?j ?st1 = (Returned, pushed config1 [?j] ?st1)"
    by (rule pushResult_pushes) (simp_all add: c i pushable_jobs)
  have l: "searchLoop config1 humanUrl [job1, job2] ?st0 = (Returned, pushed config1 [?j] ?st1)"
    by (simp add: c i job_ids p Let_def pushed_fields)
  have a: "step config1 (Fetched searchRequest (Some 200) pageA) ?st0
      = (Returned, sleep 300 800 (pushed config1 [?j] ?st1))"
    by (simp add: requestHandler_def q handleSearch_def c i pageA_def emptyPage_def u l
          del: searchLoop.simps)
  have b: "step config1 (Fetched searchRequest2 (Some 200) pageB)
             (sleep 300 800 (pushed config1 [?j] ?st1))
      = (Returned, sleep 300 800 (pushed config1 [?j] ?st1))"
    by (simp add: requestHandler_def q handleSearch_def c i sleep_def pushed_def)
  have r: "run config1 [Fetched searchRequest (Some 200) pageA,
                        Fetched searchRequest2 (Some 200) pageB] ?st0
      = sleep 300 800 (pushed config1 [?j] ?st1)"
    by (simp add: a b del: step.simps)
  show ?thesis
    unfolding r by (simp add: pageA_def pageB_def sleep_def pushed_fields i job_ids)
qed


text \<open>
  C3, as amended. The dispatch-or-push path is taken at most once for a job id, over all
  the search results of a run, whatever shard they come from: an id that is marked stays
  marked through every later step of the run; a card whose id is marked is skipped, the
  loop going on as if the card were not there; the first card with an unmarked id that the
  loop reaches while the budget is not exhausted marks the id and has its job request in
  the queue (when job details are scraped) or its row in the dataset (when they are not);
  and the queue of a run never holds two job requests for one id. A card reached once the
  budget is exhausted is not processed: the loop stops there.
\<close>

theorem dedup_by_scrapedIds:
  "(jid \<in> scrapedIds st \<longrightarrow> jid \<in> scrapedIds (run c es st))
   \<and> (field jcard ''id'' \<in> scrapedIds st \<longrightarrow>
         searchLoop c u (jcard # cards) st = searchLoop c u cards st)
   \<and> (field jcard ''id'' \<notin> scrapedIds st \<and> totalScraped st < maxItems c \<longrightarrow>
         field jcard ''id'' \<in> scrapedIds (snd (searchLoop c u (jcard # cards) st))
         \<and> (scrapeJobDetails c \<longrightarrow>
               ''detail-'' @ js_toString (field jcard ''id'')
                 \<in> uniqueKey ` set (requestQueue (snd (searchLoop c u (jcard # cards) st))))
         \<and> (\<not> scrapeJobDetails c \<and> pushable (jcard(''inputUrl'' \<mapsto> JStr u)) \<longrightarrow>
               rowOf c (jcard(''inputUrl'' \<mapsto> JStr u))
                 \<in> set (dataset (snd (searchLoop c u (jcard # cards) st)))))
   \<and> (queueOk (initialState seeds) \<longrightarrow>
         length (filter (isDetailFor jid) (requestQueue (run c es (initialState seeds)))) \<le> 1)"
proof -
  have 1: "jid \<in> scrapedIds st \<longrightarrow> jid \<in> scrapedIds (run c es st)"
    using orderly_run [of st c es] by (auto simp: orderly_def)
  have 4: "queueOk (initialState seeds) \<longrightarrow>
         length (filter (isDetailFor jid) (requestQueue (run c es (initialState seeds)))) \<le> 1"
    using orderly_run [of "initialState seeds" c es] detail_requests_unique
    by (simp add: orderly_def)
  from 1 searchLoop_skip [of jcard st c u cards] searchLoop_first [of jcard st c u cards] 4
  show ?thesis by blast
qed

text \<open>
  The witness: with the actor's defaults the card of a new job is marked and gets its
  request, stays marked while another page is handled and is skipped when it comes again;
  without job details the card is pushed; the queue of the run has one request for it.
\<close>

theorem dedup_by_scrapedIds_witness:
  "field job2 ''id'' \<notin> scrapedIds (initialState [searchRequest, searchRequest2])
   \<and> totalScraped (initialState [searchRequest, searchRequest2]) < maxItems configDefault
   \<and> scrapeJobDetails configDefault
   \<and> ''detail-4000000002''
        \<in> uniqueKey ` set (requestQueue (snd (searchLoop configDefault humanUrl [job2]
               (initialState [searchRequest, searchRequest2]))))
   \<and> field job2 ''id''
        \<in> scrapedIds (run configDefault [Fetched searchRequest2 (Some 200) pageB]
              (snd (searchLoop configDefault humanUrl [job2]
                 (initialState [searchRequest, searchRequest2]))))
   \<and> searchLoop configDefault humanUrl [job2, job1]
         (snd (searchLoop configDefault humanUrl [job2]
            (initialState [searchRequest, searchRequest2])))
       = searchLoop configDefault humanUrl [job1]
           (snd (searchLoop configDefault humanUrl [job2]
              (initialState [searchRequest, searchRequest2])))
   \<and> \<not> scrapeJobDetails config0
   \<and> rowOf config0 (job2(''inputUrl'' \<mapsto> JStr humanUrl))
        \<in> set (dataset (snd (searchLoop config0 humanUrl [job2]
               (initialState [searchRequest, searchRequest2]))))
   \<and> queueOk (initialState [searchRequest, searchRequest2])
   \<and> length (filter (isDetailFor (JStr ''4000000002''))
         (requestQueue (run configDefault [Fetched searchRequest (Some 200) pageA,
                                          Fetched searchRequest2 (Some 200) pageB]
            (initialState [searchRequest, searchRequest2])))) \<le> 1"
proof -
  let ?st0 = "initialState [searchRequest, searchRequest2]"
  let ?mst = "snd (searchLoop configDefault humanUrl [job2] ?st0)"
  let ?es = "[Fetched searchRequest (Some 200) pageA, Fetched searchRequest2 (Some 200) pageB]"
  have new: "field job2 ''id'' \<notin> scrapedIds ?st0" by (simp add: initialState_def)
  have b: "totalScraped ?st0 < maxItems configDefault" "totalScraped ?st0 < maxItems config0"
    by (simp_all add: initialState_def configDefault_def config0_def)
  have d: "scrapeJobDetails configDefault" "\<not> scrapeJobDetails config0"
    by (simp_all add: configDefault_def config0_def)
  note t1 = dedup_by_scrapedIds [of "JStr ''4000000002''" ?st0 configDefault ?es job2
      humanUrl "[]" "[searchRequest, searchRequest2]"]
  note t2 = dedup_by_scrapedIds [of "field job2 ''id''" ?mst configDefault
      "[Fetched searchRequest2 (Some 200) pageB]" job2 humanUrl "[job1]" "[]"]
  note t3 = dedup_by_scrapedIds [of "JStr ''4000000002''" ?st0 config0 "[]" job2
      humanUrl "[]" "[]"]
  from t1 new b d have m: "field job2 ''id'' \<in> scrapedIds ?mst"
    and k: "''detail-'' @ js_toString (field job2 ''id'') \<in> uniqueKey ` set (requestQueue ?mst)"
    by blast+
  from t1 queueOk_seeds
  have u: "length (filter (isDetailFor (JStr ''4000000002'')) (requestQueue (run configDefault ?es ?st0))) \<le> 1"
    by blast
  from t2 m have p: "field job2 ''id'' \<in> scrapedIds (run configDefault [Fetched searchRequest2 (Some 200) pageB] ?mst)"
    and s: "searchLoop configDefault humanUrl [job2, job1] ?mst = searchLoop configDefault humanUrl [job1] ?mst"
    by blast+
  from t3 new b d pushable_jobs(4) [of "JStr humanUrl"]
  have r: "rowOf config0 (job2(''inputUrl'' \<mapsto> JStr humanUrl))
        \<in> set (dataset (snd (searchLoop config0 humanUrl [job2] ?st0)))"
    by blast
  have k': "''detail-'' @ js_toString (field job2 ''id'') = ''detail-4000000002''"
    by (simp add: job_ids)
  from new b(1) d k [unfolded k'] p s r queueOk_seeds u show ?thesis by blast
qed

section \<open>The budget when handlers overlap\<close>




























lemma crawl_append: "crawl c (ms @ ms') s = crawl c ms' (crawl c ms s)"
  by (induction ms arbitrary: s) simp_all













section \<open>Resolving a company while other handlers run\<close>
































lemma handleCompany_async_resolves:
  assumes "\<not> companyThrows retries statusCode p"
  shows "handleCompany_async c slug pendingJobs retries statusCode p st
     = passengerLoop c slug (companyDataOf statusCode p) pendingJobs
         (st\<lparr>companyCache := (companyCache st)(slug \<mapsto> companyDataOf statusCode p)\<rparr>)"
  using assms by (auto simp: handleCompany_async_def companyThrows_def companyDataOf_def)























section \<open>Jobs waiting for a company page\<close>











section \<open>One company request for many jobs\<close>









section \<open>Handlers that do not overlap\<close>

lemma finishes_done: "finishes c (Done out, st) (out, st)"
  unfolding finishes_def by (rule exI [of _ 0]) simp

lemma finishes_resume:
  assumes "finishes c (resume c w k st) final"
  shows "finishes c (Awaiting w k, st) final"
proof -
  from assms obtain n where "alone c n (resume c w k st) = (Done (fst final), snd final)"
    by (auto simp: finishes_def)
  then have "alone c (Suc n) (Awaiting w k, st) = (Done (fst final), snd final)" by simp
  then show ?thesis unfolding finishes_def by (rule exI)
qed

lemma finishes_sleep: "finishes c (finalSleep lo hi st) (Returned, sleep lo hi st)"
  unfolding finalSleep_def
  by (rule finishes_resume) (simp add: resume_def finishes_done)

lemma finishes_backoff: "finishes c (Awaiting Sleep ThrowError, st) (Thrown, st)"
  by (rule finishes_resume) (simp add: resume_def finishes_done)

lemma finishes_pushResult:
  assumes "\<And>st1. pushResult c data st = (Returned, st1) \<Longrightarrow> finishes c (continue c k st1) (f st1)"
  shows "finishes c (pushResult_async c data k st)
           (case pushResult c data st of (Thrown, st1) \<Rightarrow> (Thrown, st1)
                                       | (Returned, st1) \<Rightarrow> f st1)"
proof (cases "maxItems c \<le> totalScraped st")
  case True
  with assms [of st] show ?thesis
    by (simp add: pushResult_def pushResult_async_def finishes_resume resume_def)
next
  case False
  show ?thesis
  proof (cases "formatPostedAt (field data ''postedAt'')")
    case Throw
    with False show ?thesis
      by (simp add: pushResult_def pushResult_async_def finishes_done)
  next
    case (Ok formatted)
    let ?st1 = "st\<lparr>dataset := dataset st @ [outputRecord c data formatted],
        totalScraped := Suc (totalScraped st)\<rparr>"
    from False Ok have p: "pushResult c data st = (Returned, ?st1)"
      by (simp add: pushResult_def)
    from assms [OF p] have "finishes c (Awaiting PushData k,
        st\<lparr>dataset := dataset st @ [outputRecord c data formatted]\<rparr>) (f ?st1)"
      by (intro finishes_resume) (simp add: resume_def)
    with False Ok p show ?thesis by (simp add: pushResult_async_def)
  qed
qed

lemma finishes_push_sleep:
  "finishes c (pushResult_async c data (FinalSleep lo hi) st)
     (thenSleep lo hi (pushResult c data st))"
proof -
  have "finishes c (pushResult_async c data (FinalSleep lo hi) st)
      (case pushResult c data st of (Thrown, st1) \<Rightarrow> (Thrown, st1)
                                  | (Returned, st1) \<Rightarrow> (Returned, sleep lo hi st1))"
    by (rule finishes_pushResult) (simp add: finishes_sleep)
  then show ?thesis by (simp add: thenSleep_def split: prod.splits outcome.splits)
qed

lemma finishes_push_return:
  "finishes c (pushResult_async c data Return st) (pushResult c data st)"
proof -
  have "finishes c (pushResult_async c data Return st)
      (case pushResult c data st of (Thrown, st1) \<Rightarrow> (Thrown, st1)
                                  | (Returned, st1) \<Rightarrow> (Returned, st1))"
    by (rule finishes_pushResult) (simp add: finishes_done)
  then show ?thesis by (simp split: prod.splits outcome.splits)
qed

lemma finishes_failedLoop:
  "finishes c (failedLoop c slug jobs st)
     (case pushAll c jobs st of
        (Thrown, st1) \<Rightarrow> (Thrown, st1)
      | (Returned, st1) \<Rightarrow>
          (Returned, st1\<lparr>pendingCompanies := (pendingCompanies st1)(slug := None)\<rparr>))"
proof (induction jobs arbitrary: st)
  case Nil
  show ?case by (simp add: finishes_done)
next
  case (Cons job jobs)
  have "finishes c (pushResult_async c job (FailedJobs slug jobs) st)
      (case pushResult c job st of (Thrown, st1) \<Rightarrow> (Thrown, st1)
         | (Returned, st1) \<Rightarrow>
             (case pushAll c jobs st1 of
                (Thrown, st2) \<Rightarrow> (Thrown, st2)
              | (Returned, st2) \<Rightarrow>
                  (Returned, st2\<lparr>pendingCompanies := (pendingCompanies st2)(slug := None)\<rparr>)))"
    by (rule finishes_pushResult) (simp add: Cons.IH)
  then show ?case by (simp split: prod.splits outcome.splits)
qed

lemma finishes_overflowLoop:
  "finishes c (overflowLoop c slug cd jobs st)
     (case pushAll c (map (\<lambda>job. job ++ cd) jobs) st of
        (Thrown, st1) \<Rightarrow> (Thrown, st1)
      | (Returned, st1) \<Rightarrow>
          (Returned, sleep 300 700
             (st1\<lparr>pendingCompanies := (pendingCompanies st1)(slug := None)\<rparr>)))"
proof (induction jobs arbitrary: st)
  case Nil
  show ?case by (simp add: finishes_sleep)
next
  case (Cons job jobs)
  have "finishes c (pushResult_async c (job ++ cd) (Overflow slug cd jobs) st)
      (case pushResult c (job ++ cd) st of (Thrown, st1) \<Rightarrow> (Thrown, st1)
         | (Returned, st1) \<Rightarrow>
             (case pushAll c (map (\<lambda>job. job ++ cd) jobs) st1 of
                (Thrown, st2) \<Rightarrow> (Thrown, st2)
              | (Returned, st2) \<Rightarrow>
                  (Returned, sleep 300 700
                     (st2\<lparr>pendingCompanies := (pendingCompanies st2)(slug := None)\<rparr>))))"
    by (rule finishes_pushResult) (simp add: Cons.IH)
  then show ?case by (simp split: prod.splits outcome.splits)
qed

lemma finishes_passengerLoop:
  "finishes c (passengerLoop c slug cd jobs st) (pushPending c slug jobs cd st)"
proof (induction jobs arbitrary: st)
  case Nil
  from finishes_overflowLoop [of c slug cd "overflowOf st slug" st] show ?case
    by (simp add: pushPending_def)
next
  case (Cons job jobs)
  have "finishes c (pushResult_async c (job ++ cd) (Passengers slug cd jobs) st)
      (case pushResult c (job ++ cd) st of (Thrown, st1) \<Rightarrow> (Thrown, st1)
         | (Returned, st1) \<Rightarrow> pushPending c slug jobs cd st1)"
    by (rule finishes_pushResult) (simp add: Cons.IH)
  moreover have "pushPending c slug (job # jobs) cd st
      = (case pushResult c (job ++ cd) st of (Thrown, st1) \<Rightarrow> (Thrown, st1)
         | (Returned, st1) \<Rightarrow> pushPending c slug jobs cd st1)"
  proof (cases "pushResult c (job ++ cd) st")
    case (Pair out st1)
    then show ?thesis by (cases out) (simp_all add: pushPending_def)
  qed
  ultimately show ?case by simp
qed

lemma finishes_searchCards:
  "finishes c (searchCards c u cards st)
     (case searchLoop c u cards st of
        (Thrown, st1) \<Rightarrow> (Thrown, st1)
      | (Returned, st1) \<Rightarrow> (Returned, sleep 300 800 st1))"
proof (induction cards arbitrary: st)
  case Nil
  show ?case by (simp add: finishes_sleep)
next
  case (Cons jcard cards)
  let ?st1 = "st\<lparr>scrapedIds := insert (field jcard ''id'') (scrapedIds st)\<rparr>"
  let ?card = "jcard(''inputUrl'' \<mapsto> JStr u)"
  show ?case
  proof (cases "maxItems c \<le> totalScraped st")
    case True
    then show ?thesis by (simp add: finishes_sleep)
  next
    case False
    show ?thesis
    proof (cases "field jcard ''id'' \<in> scrapedIds st")
      case True
      with False Cons.IH [of st] show ?thesis by simp
    next
      case new: False
      show ?thesis
      proof (cases "scrapeJobDetails c")
        case True
        let ?st2 = "snd (addRequest (detailRequest jcard ?card) ?st1)"
        have "finishes c (Awaiting AddRequest (SearchCards u cards), ?st2)
            (case searchLoop c u cards ?st2 of
               (Thrown, st1) \<Rightarrow> (Thrown, st1)
             | (Returned, st1) \<Rightarrow> (Returned, sleep 300 800 st1))"
          by (rule finishes_resume) (simp add: resume_def Cons.IH)
        with False new True show ?thesis by (simp add: Let_def)
      next
        case nd: False
        have "finishes c (pushResult_async c ?card (SearchCards u cards) ?st1)
            (case pushResult c ?card ?st1 of (Thrown, st2) \<Rightarrow> (Thrown, st2)
               | (Returned, st2) \<Rightarrow>
                   (case searchLoop c u cards st2 of
                      (Thrown, st3) \<Rightarrow> (Thrown, st3)
                    | (Returned, st3) \<Rightarrow> (Returned, sleep 300 800 st3)))"
          by (rule finishes_pushResult) (simp add: Cons.IH)
        with False new nd show ?thesis
          by (simp add: Let_def split: prod.splits outcome.splits)
      qed
    qed
  qed
qed

lemma finishes_handleSearch:
  "finishes c (handleSearch_async c u statusCode p st) (handleSearch c u statusCode p st)"
proof -
  have "finishes c (Awaiting Sleep Return, sleep 5000 5000 st) (Returned, sleep 5000 5000 st)"
    using finishes_sleep [of c 5000 5000 st] by (simp add: finalSleep_def)
  then show ?thesis
    using finishes_searchCards [of c "if u \<noteq> [] then u else inputUrl c" "jobCards p" st]
    by (simp add: handleSearch_async_def handleSearch_def finishes_done Let_def)
qed

lemma finishes_companyAdded:
  "finishes c (Awaiting AddRequest (CompanyAdded slug merged (fst (addRequest r st))),
       snd (addRequest r st))
     (case addRequest r st of
        (False, st1) \<Rightarrow>
          (Returned, sleep 200 600
             (st1\<lparr>pendingCompanies := (pendingCompanies st1)(slug \<mapsto> [])\<rparr>))
      | (True, st1) \<Rightarrow>
          (case companyCache st1 slug of
             Some cached \<Rightarrow> thenSleep 200 600 (pushResult c (merged ++ cached) st1)
           | None \<Rightarrow>
               (Returned, sleep 200 600
                  (st1\<lparr>pendingCompanies := (pendingCompanies st1)
                     (slug \<mapsto> (case pendingCompanies st1 slug of
                                  None \<Rightarrow> [] | Some js \<Rightarrow> js) @ [merged])\<rparr>))))"
proof (cases "addRequest r st")
  case (Pair present st1)
  show ?thesis
  proof (cases present)
    case False
    with Pair show ?thesis
      by (intro finishes_resume) (simp add: resume_def companyAdded_def finishes_sleep)
  next
    case True
    show ?thesis
    proof (cases "companyCache st1 slug")
      case None
      with Pair True show ?thesis
        by (intro finishes_resume) (simp add: resume_def companyAdded_def finishes_sleep)
    next
      case (Some cached)
      with Pair True show ?thesis
        by (intro finishes_resume) (simp add: resume_def companyAdded_def finishes_push_sleep)
    qed
  qed
qed

lemma finishes_handleJobDetail:
  "finishes c (handleJobDetail_async c cardData retries statusCode p st)
     (handleJobDetail c cardData retries statusCode p st)"
  using finishes_companyAdded [of c _ "cardData ++ jobDetail p" _ st]
  by (simp add: handleJobDetail_async_def handleJobDetail_def Let_def finishes_done
      finishes_backoff finishes_push_return finishes_push_sleep split_beta
      split: res.splits option.splits)

lemma finishes_handleCompany:
  "finishes c (handleCompany_async c slug pendingJobs retries statusCode p st)
     (handleCompany c slug pendingJobs retries statusCode p st)"
proof (cases "companyThrows retries statusCode p")
  case True
  then show ?thesis
    by (auto simp: handleCompany_async_def handleCompany_def companyThrows_def
        finishes_done finishes_backoff)
next
  case False
  then have "handleCompany c slug pendingJobs retries statusCode p st
      = pushPending c slug pendingJobs (companyDataOf statusCode p)
          (st\<lparr>companyCache := (companyCache st)(slug \<mapsto> companyDataOf statusCode p)\<rparr>)"
    by (auto simp: handleCompany_def companyThrows_def companyDataOf_def)
  with False show ?thesis
    by (simp add: handleCompany_async_resolves finishes_passengerLoop)
qed

lemma finishes_failedRequestHandler:
  "finishes c (failedRequestHandler_async c request st) (failedRequestHandler c request st)"
  by (simp add: failedRequestHandler_async_def failedRequestHandler_def finishes_done
      finishes_push_return finishes_failedLoop split: userData.splits)

lemma finishes_start: "finishes c (start c e st) (step c e st)"
  by (cases e)
    (simp_all add: requestHandler_async_def requestHandler_def finishes_handleSearch
      finishes_handleJobDetail finishes_handleCompany finishes_failedRequestHandler
      split: userData.splits)

text \<open>
  A handler left alone finishes with the outcome and the state of the handler taken in one
  piece, so a run in which no two handlers overlap is one of the schedules of the crawler.
\<close>

lemma alone_crawl:
  "crawl c (replicate n (Resume (length ts))) \<lparr>shared = st, tasks = ts @ [t]\<rparr>
     = \<lparr>shared = snd (alone c n (t, st)), tasks = ts @ [fst (alone c n (t, st))]\<rparr>"
proof (induction n arbitrary: t st)
  case 0
  show ?case by simp
next
  case (Suc n)
  show ?case
  proof (cases t)
    case (Awaiting w k)
    obtain t' st' where r: "resume c w k st = (t', st')" by (cases "resume c w k st")
    with Awaiting have "advance c (Resume (length ts)) \<lparr>shared = st, tasks = ts @ [t]\<rparr>
        = \<lparr>shared = st', tasks = ts @ [t']\<rparr>"
      by (simp add: advance_def)
    with Suc.IH [of st' t'] Awaiting r show ?thesis by simp
  next
    case (Done out)
    then have "advance c (Resume (length ts)) \<lparr>shared = st, tasks = ts @ [t]\<rparr>
        = \<lparr>shared = st, tasks = ts @ [t]\<rparr>"
      by (simp add: advance_def)
    with Suc.IH [of st t] Done show ?thesis by (cases n) simp_all
  qed
qed

lemma step_is_crawl:
  assumes "inFlight s = 0"
  shows "\<exists>ms. crawl c ms s
     = \<lparr>shared = snd (step c e (shared s)), tasks = tasks s @ [Done (fst (step c e (shared s)))]\<rparr>"
proof -
  obtain t st where r: "start c e (shared s) = (t, st)" by (cases "start c e (shared s)")
  from finishes_start [of c e "shared s"] r obtain n
    where n: "alone c n (t, st) = (Done (fst (step c e (shared s))), snd (step c e (shared s)))"
    by (auto simp: finishes_def)
  from assms r have "advance c (Begin e) s = \<lparr>shared = st, tasks = tasks s @ [t]\<rparr>"
    by (simp add: advance_def maxConcurrency_def)
  with alone_crawl [of c n "tasks s" st t] n
  have "crawl c (Begin e # replicate n (Resume (length (tasks s)))) s
     = \<lparr>shared = snd (step c e (shared s)), tasks = tasks s @ [Done (fst (step c e (shared s)))]\<rparr>"
    by simp
  then show ?thesis by (rule exI)
qed

lemma run_is_crawl:
  assumes "inFlight s = 0"
  shows "\<exists>ms. shared (crawl c ms s) = run c es (shared s) \<and> inFlight (crawl c ms s) = 0"
  using assms
proof (induction es arbitrary: s)
  case Nil
  then have "shared (crawl c [] s) = run c [] (shared s) \<and> inFlight (crawl c [] s) = 0" by simp
  then show ?case by (rule exI)
next
  case (Cons e es)
  from step_is_crawl [OF Cons.prems, of c e] obtain ms
    where ms: "crawl c ms s = \<lparr>shared = snd (step c e (shared s)),
        tasks = tasks s @ [Done (fst (step c e (shared s)))]\<rparr>"
    by auto
  with Cons.prems have "inFlight (crawl c ms s) = 0" by (simp add: inFlight_def running_def)
  from Cons.IH [OF this] obtain ms'
    where "shared (crawl c ms' (crawl c ms s)) = run c es (shared (crawl c ms s))
        \<and> inFlight (crawl c ms' (crawl c ms s)) = 0"
    by auto
  with ms have "shared (crawl c (ms @ ms') s) = run c (e # es) (shared s)
      \<and> inFlight (crawl c (ms @ ms') s) = 0"
    by (simp add: crawl_append)
  then show ?case by (rule exI)
qed

section \<open>Query strings and numbers as text\<close>

subsection \<open>Parsing a serialised query gives the list back\<close>

lemma hexValue_hexDigit: "d < 16 \<Longrightarrow> hexValue (hexDigit d) = Some d"
proof -
  assume "d < 16"
  then have "d = 0 \<or> d = 1 \<or> d = 2 \<or> d = 3 \<or> d = 4 \<or> d = 5 \<or> d = 6 \<or> d = 7 \<or> d = 8
      \<or> d = 9 \<or> d = 10 \<or> d = 11 \<or> d = 12 \<or> d = 13 \<or> d = 14 \<or> d = 15"
    by arith
  then show ?thesis by (elim disjE) (simp_all add: hexValue_def hexDigit_def)
qed

lemma of_char_bound: "of_char (ch :: char) < (256 :: nat)"
proof -
  have "of_char ch mod 256 < (256 :: nat)" by (rule mod_less_divisor) simp
  then show ?thesis by (simp only: of_char_mod_256)
qed

lemma hex_roundtrip:
  "char_of (16 * (of_char ch div 16) + (of_char ch mod 16 :: nat)) = ch"
  by simp

lemma safe_not_special:
  "isSafe ch \<Longrightarrow> ch \<noteq> CHR ''%'' \<and> ch \<noteq> CHR ''+'' \<and> ch \<noteq> CHR ''&'' \<and> ch \<noteq> CHR ''=''
     \<and> ch \<noteq> CHR ''#'' \<and> ch \<noteq> CHR '' ''"
  by (auto simp: isSafe_def isAlnum_def)


lemma of_char_div16: "(of_char ch :: nat) div 16 < 16"
  by (rule less_mult_imp_div_less) (use of_char_bound [of ch] in simp)

lemma percentDecode_escape:
  "percentDecode (CHR ''%'' # hexDigit (of_char ch div 16) # hexDigit (of_char ch mod 16) # cs)
     = ch # percentDecode cs"
  by (simp add: hexValue_hexDigit of_char_div16)

lemma percentDecode_plain:
  "percentDecode (ch # cs) = ch # percentDecode cs" if "ch \<noteq> CHR ''%''"
proof (cases cs)
  case Nil
  then show ?thesis by simp
next
  case (Cons h1 cs1)
  then show ?thesis using that by (cases cs1) simp_all
qed

lemma decode_encodeChar:
  "decode (encodeChar ch @ cs) = ch # decode cs"
proof -
  have "isSafe ch \<Longrightarrow> ?thesis"
    using safe_not_special [of ch]
    by (auto simp: decode_def encodeChar_def isSafe_def percentDecode_plain)
  moreover have "ch = CHR '' '' \<Longrightarrow> ?thesis"
    by (simp add: decode_def encodeChar_def percentDecode_plain)
  moreover have "\<not> isSafe ch \<Longrightarrow> ch \<noteq> CHR '' '' \<Longrightarrow> ?thesis"
  proof -
    assume "\<not> isSafe ch" "ch \<noteq> CHR '' ''"
    have h: "hexDigit d \<noteq> CHR ''+''" if "d < 16" for d
      using hexValue_hexDigit [OF that] by (auto simp: hexValue_def)
    have 1: "hexDigit (of_char ch div 16) \<noteq> CHR ''+''"
      by (intro h of_char_div16)
    have 2: "hexDigit (of_char ch mod 16) \<noteq> CHR ''+''" by (intro h) simp
    from \<open>\<not> isSafe ch\<close> \<open>ch \<noteq> CHR '' ''\<close> 1 2 show ?thesis
      by (simp add: decode_def encodeChar_def isSafe_def percentDecode_escape
            del: percentDecode.simps)
  qed
  ultimately show ?thesis by blast
qed

lemma decode_encode_append: "decode (encode s @ cs) = s @ decode cs"
  by (induction s) (simp_all add: encode_def decode_encodeChar)

lemma decode_Nil: "decode [] = []"
  by (simp add: decode_def)

lemma decode_encode: "decode (encode s) = s"
  using decode_encode_append [of s "[]"] by (simp add: decode_Nil)


lemma isAlnum_hexDigit: "d < 16 \<Longrightarrow> isAlnum (hexDigit d)"
proof -
  assume "d < 16"
  then have "d = 0 \<or> d = 1 \<or> d = 2 \<or> d = 3 \<or> d = 4 \<or> d = 5 \<or> d = 6 \<or> d = 7 \<or> d = 8
      \<or> d = 9 \<or> d = 10 \<or> d = 11 \<or> d = 12 \<or> d = 13 \<or> d = 14 \<or> d = 15"
    by arith
  then show ?thesis by (elim disjE) (simp_all add: isAlnum_def hexDigit_def)
qed

lemma encodeChar_chars: "\<forall>x\<in>set (encodeChar ch). isEncoded x"
  by (auto simp: encodeChar_def isEncoded_def isSafe_def isAlnum_hexDigit of_char_div16)

lemma encode_chars: "\<forall>x\<in>set (encode s). isEncoded x"
  using encodeChar_chars by (auto simp: encode_def)

lemma isEncoded_not_separator:
  "isEncoded ch \<Longrightarrow> ch \<noteq> CHR ''&'' \<and> ch \<noteq> CHR ''='' \<and> ch \<noteq> CHR ''#''"
  using safe_not_special [of ch] by (auto simp: isEncoded_def)

lemma encode_no_separator:
  "CHR ''&'' \<notin> set (encode s)" "CHR ''='' \<notin> set (encode s)" "CHR ''#'' \<notin> set (encode s)"
  using encode_chars [of s] isEncoded_not_separator by blast+

lemma splitOn_plain: "sep \<notin> set a \<Longrightarrow> splitOn sep a = [a]"
  by (induction a) auto

lemma splitOn_append: "sep \<notin> set a \<Longrightarrow> splitOn sep (a @ sep # b) = a # splitOn sep b"
  by (induction a) auto

lemma splitOn_intercalate:
  assumes "xs \<noteq> []" and "\<forall>x\<in>set xs. sep \<notin> set x"
  shows "splitOn sep (intercalate [sep] xs) = xs"
  using assms
proof (induction "[sep]" xs rule: intercalate.induct)
  case 1
  then show ?case by simp
next
  case (2 x)
  then show ?case by (simp add: splitOn_plain)
next
  case (3 x y ys)
  then show ?case by (simp add: splitOn_append)
qed

lemma parsePair_piece: "parsePair (encode k @ CHR ''='' # encode v) = (k, v)"
proof -
  have "takeWhile (\<lambda>ch. ch \<noteq> CHR ''='') (encode k @ CHR ''='' # encode v) = encode k"
    using encode_no_separator(2) [of k] by (auto simp: takeWhile_tail)
  moreover have "dropWhile (\<lambda>ch. ch \<noteq> CHR ''='') (encode k @ CHR ''='' # encode v)
      = CHR ''='' # encode v"
    using encode_no_separator(2) [of k] by (auto simp: dropWhile_append3)
  ultimately show ?thesis by (simp add: parsePair_def decode_encode)
qed

lemma parseQuery_serializeParams: "parseQuery (serializeParams ps) = ps"
proof (cases "ps = []")
  case True
  then show ?thesis by (simp add: parseQuery_def serializeParams_def)
next
  case False
  let ?pieces = "map (\<lambda>(k, v). encode k @ ''='' @ encode v) ps"
  have n: "?pieces \<noteq> []" using False by simp
  have a: "\<forall>x\<in>set ?pieces. CHR ''&'' \<notin> set x"
    using encode_no_separator(1) by auto
  have e: "\<forall>x\<in>set ?pieces. x \<noteq> []" by auto
  have "splitOn CHR ''&'' (serializeParams ps) = ?pieces"
    unfolding serializeParams_def using splitOn_intercalate [OF n a] by simp
  moreover have "filter (\<lambda>piece. piece \<noteq> []) ?pieces = ?pieces"
    using e by (simp add: filter_id_conv)
  moreover have "map parsePair ?pieces = ps"
    by (induction ps) (auto simp: parsePair_piece)
  ultimately show ?thesis by (simp add: parseQuery_def)
qed

lemma serializeParams_chars:
  "\<forall>x\<in>set (serializeParams ps). x \<noteq> CHR ''#''"
proof -
  have "\<forall>x\<in>set (intercalate ''&'' xs). x \<noteq> CHR ''#''"
    if "\<forall>y\<in>set xs. CHR ''#'' \<notin> set y" for xs :: "string list"
    using that by (induction "''&''" xs rule: intercalate.induct) auto
  moreover have "\<forall>y\<in>set (map (\<lambda>(k, v). encode k @ ''='' @ encode v) ps). CHR ''#'' \<notin> set y"
    using encode_no_separator(3) by auto
  ultimately show ?thesis unfolding serializeParams_def by blast
qed


subsection \<open>Parsing a printed URL gives the URL back\<close>

lemma cutHref_url_toString:
  assumes b: "\<forall>ch\<in>set b. notQueryOrFragment ch" and ps: "ps \<noteq> []"
    and f: "f = [] \<or> hd f = CHR ''#''"
  shows "cutHref (url_toString \<lparr>base = b, searchParams = ps, fragmentSuffix = f\<rparr>)
         = \<lparr>base = b, searchParams = ps, fragmentSuffix = f\<rparr>"
proof -
  let ?q = "serializeParams ps"
  have s: "url_toString \<lparr>base = b, searchParams = ps, fragmentSuffix = f\<rparr>
      = b @ CHR ''?'' # ?q @ f"
    using ps by (simp add: url_toString_def)
  have t: "takeWhile notQueryOrFragment (b @ CHR ''?'' # ?q @ f) = b"
    using b by (simp add: takeWhile_tail notQueryOrFragment_def)
  have d: "dropWhile notQueryOrFragment (b @ CHR ''?'' # ?q @ f) = CHR ''?'' # ?q @ f"
    using b by (simp add: dropWhile_append3 notQueryOrFragment_def)
  have q: "takeWhile (\<lambda>x. x \<noteq> CHR ''#'') (?q @ f) = ?q"
    using f serializeParams_chars [of ps]
    by (cases f) (auto simp: takeWhile_tail)
  have "dropWhile (\<lambda>x. x \<noteq> CHR ''#'') (?q @ f) = dropWhile (\<lambda>x. x \<noteq> CHR ''#'') f"
    using serializeParams_chars [of ps] by (intro dropWhile_append2) simp
  also have "dropWhile (\<lambda>x. x \<noteq> CHR ''#'') f = f"
    using f by (cases f) auto
  finally have r0: "dropWhile (\<lambda>x. x \<noteq> CHR ''#'') (?q @ f) = f" .
  then have r: "dropWhile (\<lambda>x. x \<noteq> CHR ''#'') (CHR ''?'' # ?q @ f) = f"
    by simp
  show ?thesis
    unfolding s by (simp add: cutHref_def t d q r0 parseQuery_serializeParams Let_def)
qed

lemma cutHref_shape:
  "\<forall>ch\<in>set (base (cutHref h)). notQueryOrFragment ch"
  "fragmentSuffix (cutHref h) = [] \<or> hd (fragmentSuffix (cutHref h)) = CHR ''#''"
proof -
  show "\<forall>ch\<in>set (base (cutHref h)). notQueryOrFragment ch"
    by (auto simp: cutHref_def Let_def dest: set_takeWhileD)
  show "fragmentSuffix (cutHref h) = [] \<or> hd (fragmentSuffix (cutHref h)) = CHR ''#''"
    using hd_dropWhile [of "\<lambda>x. x \<noteq> CHR ''#''"]
    by (auto simp: cutHref_def Let_def)
qed

lemma sp_set_not_Nil: "sp_set ps name v \<noteq> []"
  by (cases ps) (auto split: if_splits)

lemma sp_get_sp_set: "sp_get (sp_set ps name v) name = Some v"
  by (induction ps) (auto simp: sp_get_def)

subsection \<open>Reading the decimal digits of a number gives the number back\<close>

lemma digit_char_props:
  assumes "d < 10"
  shows "isDigit (digit_char d)" "digitValue (digit_char d) = d" "\<not> isWhite (digit_char d)"
    "digit_char d \<noteq> CHR ''-''" "digit_char d \<noteq> CHR ''+''"
proof -
  from assms have "d = 0 \<or> d = 1 \<or> d = 2 \<or> d = 3 \<or> d = 4 \<or> d = 5 \<or> d = 6 \<or> d = 7
      \<or> d = 8 \<or> d = 9" by arith
  then show "isDigit (digit_char d)" "digitValue (digit_char d) = d" "\<not> isWhite (digit_char d)"
    "digit_char d \<noteq> CHR ''-''" "digit_char d \<noteq> CHR ''+''"
    by (auto simp: digit_char_def isDigit_def digitValue_def isWhite_def)
qed

lemma dec_digits: "\<forall>ch\<in>set (dec n). isDigit ch"
  by (induction n rule: dec.induct) (subst dec.simps, auto simp: digit_char_props)

lemma dec_not_Nil: "dec n \<noteq> []"
  by (subst dec.simps) simp

lemma hd_dec: "isDigit (hd (dec n))"
  using dec_digits [of n] dec_not_Nil [of n] by (cases "dec n") auto

lemma dec_value: "foldl (\<lambda>acc ch. 10 * acc + digitValue ch) 0 (dec n) = n"
  by (induction n rule: dec.induct) (subst dec.simps, auto simp: digit_char_props)

lemma readDigits_dec: "readDigits (dec n) = Some n"
proof -
  have t: "takeWhile isDigit (dec n) = dec n" using dec_digits by simp
  show ?thesis unfolding readDigits_def Let_def t by (simp add: dec_not_Nil dec_value)
qed

lemma isDigit_plain: "isDigit ch \<Longrightarrow> \<not> isWhite ch \<and> ch \<noteq> CHR ''-'' \<and> ch \<noteq> CHR ''+''"
  by (auto simp: isDigit_def isWhite_def)

lemma parseInt10_dec: "parseInt10 (dec n) = Some (int n)"
proof -
  obtain d ds where e: "dec n = d # ds" using dec_not_Nil [of n] by (cases "dec n") auto
  with hd_dec [of n] have "isDigit d" by simp
  from isDigit_plain [OF this] e readDigits_dec [of n] show ?thesis
    by (simp add: parseInt10_def)
qed

section \<open>Canonical form of a search URL\<close>

lemma plainHref_repeatedUrl: "plainHref repeatedUrl = Some repeatedUrl"
  by (simp add: plainHref_def repeatedUrl_def isAlnum_def)

lemma cutHref_repeatedUrl:
  "cutHref repeatedUrl = \<lparr>base = ''https://www.linkedin.com/jobs/search/'',
     searchParams = [(''keywords'', ''dev''), (''f_JT'', ''F''), (''f_JT'', ''P'')],
     fragmentSuffix = []\<rparr>"
  by (simp add: cutHref_def repeatedUrl_def notQueryOrFragment_def parseQuery_def parsePair_def
      decode_def hexValue_def)

lemma repeatedUrl_not_api: "\<not> str_includes repeatedUrl apiMarker"
  by (simp add: repeatedUrl_def apiMarker_def)

lemma serializeParams_repeated:
  "serializeParams [(''keywords'', ''dev''), (''f_JT'', ''P''), (''start'', ''0'')]
     = ''keywords=dev&f_JT=P&start=0''"
  by (simp add: serializeParams_def encode_def encodeChar_def isAlnum_def)

lemma str_includes_suffix: "prefix t ys \<Longrightarrow> str_includes (xs @ ys) t"
proof (induction xs)
  case Nil
  then show ?case by (cases ys) auto
next
  case (Cons x xs)
  then show ?case by simp
qed

lemma apiEndpoint_marker:
  "str_includes (url_toString (apiEndpoint\<lparr>searchParams := ps\<rparr>)) apiMarker"
proof -
  have "url_toString (apiEndpoint\<lparr>searchParams := ps\<rparr>)
      = ''https://www.linkedin.com'' @ (apiMarker @ ''search''
          @ (if ps = [] then [] else ''?'' @ serializeParams ps))"
    by (simp add: url_toString_def apiEndpoint_def apiMarker_def)
  moreover have "prefix apiMarker (apiMarker @ ''search''
          @ (if ps = [] then [] else ''?'' @ serializeParams ps))"
    by (rule prefixI) simp
  ultimately show ?thesis by (simp only: str_includes_suffix)
qed

text \<open>
  Applying \<open>toGuestApiUrl\<close> twice gives what applying it once gives, for every string and
  whatever the platform parses: a string with the API path and a string that does not
  parse are returned as they are, and the URL built otherwise has the API path.
\<close>

lemma toGuestApiUrl_idempotent:
  "toGuestApiUrl href (toGuestApiUrl href u) = toGuestApiUrl href u"
proof (cases "str_includes u apiMarker")
  case True
  then show ?thesis by (simp add: toGuestApiUrl_def)
next
  case False
  show ?thesis
  proof (cases "new_URL href u")
    case None
    with False show ?thesis by (simp add: toGuestApiUrl_def)
  next
    case (Some parsed)
    with False obtain ps
      where "toGuestApiUrl href u = url_toString (apiEndpoint\<lparr>searchParams := ps\<rparr>)"
      by (simp add: toGuestApiUrl_def Let_def)
    then show ?thesis using apiEndpoint_marker [of ps] by (simp add: toGuestApiUrl_def)
  qed
qed

lemma sp_set_fresh: "name \<notin> fst ` set ps \<Longrightarrow> sp_set ps name v = ps @ [(name, v)]"
  by (induction ps) auto

lemma foldl_sp_set_distinct:
  "distinct (map fst (acc @ ps)) \<Longrightarrow> foldl (\<lambda>ps (k, v). sp_set ps k v) acc ps = acc @ ps"
proof (induction ps arbitrary: acc)
  case Nil
  then show ?case by simp
next
  case (Cons p ps)
  obtain k v where p: "p = (k, v)" by (cases p)
  from Cons.prems p have "k \<notin> fst ` set acc" by auto
  then have "sp_set acc k v = acc @ [(k, v)]" by (rule sp_set_fresh)
  moreover from Cons.prems p have "distinct (map fst ((acc @ [(k, v)]) @ ps))" by simp
  ultimately show ?case using Cons.IH [of "acc @ [(k, v)]"] p by simp
qed

text \<open>
  When no parameter name occurs twice in the query, the URL built has the parameters of
  the input, in their order, and \<open>start=0\<close> after them when the input has no \<open>start\<close>.
\<close>

lemma toGuestApiUrl_distinct_names:
  assumes "\<not> str_includes u apiMarker" and "new_URL href u = Some parsed"
    and "distinct (map fst (searchParams parsed))"
  shows "toGuestApiUrl href u =
     url_toString (apiEndpoint\<lparr>searchParams :=
        (if sp_has (searchParams parsed) ''start'' then searchParams parsed
         else searchParams parsed @ [(''start'', ''0'')])\<rparr>)"
proof -
  from assms(3) have "foldl (\<lambda>ps (k, v). sp_set ps k v) [] (searchParams parsed)
      = searchParams parsed"
    using foldl_sp_set_distinct [of "[]" "searchParams parsed"] by simp
  with assms(1,2) show ?thesis
    by (simp add: toGuestApiUrl_def apiEndpoint_def sp_set_fresh sp_has_def)
qed

text \<open>
  C8. The claim says that \<open>toGuestApiUrl\<close> is idempotent and that it preserves all query
  parameters of a parseable search URL. The loop that copies the parameters calls
  \<open>searchParams.set\<close>, which replaces what an earlier pair with the same name has
  written: of a name that occurs twice only the last value is in the result. At the URL
  with \<open>f_JT=F\<close> and \<open>f_JT=P\<close> the URL built has \<open>f_JT=P\<close> alone.
\<close>

theorem toGuestApiUrl_repeated_name:
  "new_URL plainHref repeatedUrl =
     Some \<lparr>base = ''https://www.linkedin.com/jobs/search/'',
           searchParams = [(''keywords'', ''dev''), (''f_JT'', ''F''), (''f_JT'', ''P'')],
           fragmentSuffix = []\<rparr>
   \<and> toGuestApiUrl plainHref repeatedUrl =
     ''https://www.linkedin.com/jobs-guest/jobs/api/seeMoreJobPostings/search?keywords=dev&f_JT=P&start=0''"
  by (simp add: toGuestApiUrl_def repeatedUrl_not_api new_URL_def plainHref_repeatedUrl
      cutHref_repeatedUrl apiEndpoint_def sp_has_def url_toString_def serializeParams_repeated)

section \<open>Writing and reading the pagination offset\<close>

lemma plainHref_humanUrl: "plainHref humanUrl = Some humanUrl"
  by (simp add: plainHref_def humanUrl_def isAlnum_def)

lemma plainHref_refuses: "plainHref ''not a url'' = None"
  by (simp add: plainHref_def)

lemma cutHref_humanUrl:
  "cutHref humanUrl = \<lparr>base = ''https://www.linkedin.com/jobs/search/'',
     searchParams = [(''keywords'', ''dev'')], fragmentSuffix = []\<rparr>"
  by (simp add: cutHref_def humanUrl_def notQueryOrFragment_def parseQuery_def parsePair_def
      decode_def hexValue_def)

lemma dec_25: "dec 25 = ''25''"
  by (simp add: dec.simps digit_char_def)

lemma dec_21: "dec 21 = ''21''"
  by (simp add: dec.simps digit_char_def)

lemma dec_hugeStart: "dec hugeStart = ''1000000000000000000000''"
  by (simp add: dec.simps digit_char_def hugeStart_def)

lemma length_hugeStart: "length ''1000000000000000000000'' - 1 = (21 :: nat)"
  by simp

lemma js_String_hugeStart: "js_String hugeStart = ''1e+21''"
  unfolding js_String_def dec_hugeStart length_hugeStart dec_21
  by (simp add: stripZeros_def hugeStart_def)

lemma char_of_plus: "char_of (43 :: nat) = CHR ''+''"
  by code_simp

lemma setStartParam_25:
  "setStartParam plainHref humanUrl 25
     = ''https://www.linkedin.com/jobs/search/?keywords=dev&start=25''"
proof -
  have "serializeParams [(''keywords'', ''dev''), (''start'', ''25'')] = ''keywords=dev&start=25''"
    by (simp add: serializeParams_def encode_def encodeChar_def isAlnum_def)
  then show ?thesis
    by (simp add: setStartParam_def new_URL_def plainHref_humanUrl cutHref_humanUrl
        js_String_def dec_25 url_toString_def)
qed

lemma plainHref_25:
  "plainHref ''https://www.linkedin.com/jobs/search/?keywords=dev&start=25''
     = Some ''https://www.linkedin.com/jobs/search/?keywords=dev&start=25''"
  by (simp add: plainHref_def isAlnum_def)

lemma setStartParam_hugeStart:
  "setStartParam plainHref humanUrl hugeStart
     = ''https://www.linkedin.com/jobs/search/?keywords=dev&start=1e%2B21''"
proof -
  have "serializeParams [(''keywords'', ''dev''), (''start'', ''1e+21'')]
      = ''keywords=dev&start=1e%2B21''"
    by (simp add: serializeParams_def encode_def encodeChar_def isAlnum_def hexDigit_def)
  then show ?thesis
    by (simp add: setStartParam_def new_URL_def plainHref_humanUrl cutHref_humanUrl
        js_String_hugeStart url_toString_def)
qed

lemma plainHref_hugeStart:
  "plainHref ''https://www.linkedin.com/jobs/search/?keywords=dev&start=1e%2B21''
     = Some ''https://www.linkedin.com/jobs/search/?keywords=dev&start=1e%2B21''"
  by (simp add: plainHref_def isAlnum_def)

lemma cutHref_hugeStart:
  "cutHref ''https://www.linkedin.com/jobs/search/?keywords=dev&start=1e%2B21''
     = \<lparr>base = ''https://www.linkedin.com/jobs/search/'',
         searchParams = [(''keywords'', ''dev''), (''start'', ''1e+21'')],
         fragmentSuffix = []\<rparr>"
  by (simp add: cutHref_def notQueryOrFragment_def parseQuery_def parsePair_def
      decode_def hexValue_def char_of_plus)

lemma parseInt10_exponential: "parseInt10 ''1e+21'' = Some 1"
  by (simp add: parseInt10_def isWhite_def readDigits_def isDigit_def digitValue_def)

text \<open>
  C10. The claim says that reading the offset back gives \<open>n\<close> for every natural number
  \<open>n\<close>. \<open>String\<close> prints \<open>10^21\<close> as \<open>1e+21\<close>, the query carries \<open>start=1e%2B21\<close>,
  and \<open>parseInt\<close> stops at the \<open>e\<close>: the offset read back is 1.
\<close>

theorem setStartParam_round_trip_counterexample:
  "plainHref humanUrl = Some humanUrl
   \<and> setStartParam plainHref humanUrl hugeStart
       = ''https://www.linkedin.com/jobs/search/?keywords=dev&start=1e%2B21''
   \<and> getStartParam plainHref (setStartParam plainHref humanUrl hugeStart) = Some 1
   \<and> int hugeStart \<noteq> 1"
proof -
  have "getStartParam plainHref (setStartParam plainHref humanUrl hugeStart) = Some 1"
    by (simp add: setStartParam_hugeStart getStartParam_def new_URL_def
        plainHref_hugeStart cutHref_hugeStart sp_get_def parseInt10_exponential)
  moreover have "int hugeStart \<noteq> 1" by (simp add: hugeStart_def)
  ultimately show ?thesis
    using plainHref_humanUrl setStartParam_hugeStart by (intro conjI)
qed

text \<open>
  C10, as amended. For every string \<open>u\<close> the platform parses as a URL and every natural
  number \<open>n\<close> below \<open>10^21\<close>, \<open>getStartParam (setStartParam u n)\<close> is \<open>n\<close>; for a
  string that is not a parseable URL, \<open>setStartParam\<close> returns its input unchanged and
  \<open>getStartParam\<close> returns 0. The platform is taken to read the URL that \<open>toString\<close>
  has printed as that same URL.
\<close>

theorem setStartParam_round_trip:
  "(href u = Some h \<and> href (setStartParam href u n) = Some (setStartParam href u n)
      \<and> n < 10 ^ 21
     \<longrightarrow> getStartParam href (setStartParam href u n) = Some (int n))
   \<and> (href u = None
     \<longrightarrow> setStartParam href u n = u \<and> getStartParam href u = Some 0)"
proof (intro conjI impI)
  assume a: "href u = Some h \<and> href (setStartParam href u n) = Some (setStartParam href u n)
      \<and> n < 10 ^ 21"
  let ?ps = "sp_set (searchParams (cutHref h)) ''start'' (dec n)"
  let ?out = "\<lparr>base = base (cutHref h), searchParams = ?ps,
      fragmentSuffix = fragmentSuffix (cutHref h)\<rparr>"
  have s: "setStartParam href u n = url_toString ?out"
    using a by (cases "cutHref h") (simp add: setStartParam_def new_URL_def js_String_def)
  have "cutHref (url_toString ?out) = ?out"
    using cutHref_shape [of h] by (intro cutHref_url_toString) (simp_all add: sp_set_not_Nil)
  with a s have "new_URL href (setStartParam href u n) = Some ?out"
    by (simp add: new_URL_def)
  then show "getStartParam href (setStartParam href u n) = Some (int n)"
    by (simp add: getStartParam_def sp_get_sp_set dec_not_Nil parseInt10_dec)
next
  assume "href u = None"
  then show "setStartParam href u n = u" by (simp add: setStartParam_def new_URL_def)
next
  assume "href u = None"
  then show "getStartParam href u = Some 0" by (simp add: getStartParam_def new_URL_def)
qed

theorem setStartParam_round_trip_witness:
  "plainHref humanUrl = Some humanUrl
   \<and> plainHref (setStartParam plainHref humanUrl 25) = Some (setStartParam plainHref humanUrl 25)
   \<and> getStartParam plainHref (setStartParam plainHref humanUrl 25) = Some 25
   \<and> plainHref ''not a url'' = None
   \<and> setStartParam plainHref ''not a url'' 25 = ''not a url''
   \<and> getStartParam plainHref ''not a url'' = Some 0"
proof -
  have r: "plainHref (setStartParam plainHref humanUrl 25)
      = Some (setStartParam plainHref humanUrl 25)"
    by (simp only: setStartParam_25 plainHref_25)
  have "getStartParam plainHref (setStartParam plainHref humanUrl 25) = Some 25"
    using setStartParam_round_trip [of plainHref humanUrl humanUrl 25] plainHref_humanUrl r
    by simp
  moreover have "setStartParam plainHref ''not a url'' 25 = ''not a url''
      \<and> getStartParam plainHref ''not a url'' = Some 0"
    using setStartParam_round_trip [of plainHref "''not a url''" humanUrl 25] plainHref_refuses
    by simp
  ultimately show ?thesis using plainHref_humanUrl r plainHref_refuses by simp
qed

end
